theory Spec2Isabelle
  imports Complex_Main "HOL-Library.Multiset"
begin

section \<open>Errors, retry and circuit breaker (src/Roteiro3/shared/middleware/error-handling.js)\<close>

text \<open>
  The \<open>ErrorCodes\<close> table of the source, as integer constants. Only the three codes that
  \<open>withRetry\<close> inspects and the one that the circuit breaker throws are needed.
\<close>

definition DEADLINE_EXCEEDED :: int where "DEADLINE_EXCEEDED = 4"
definition RESOURCE_EXHAUSTED :: int where "RESOURCE_EXHAUSTED = 8"
definition UNAVAILABLE :: int where "UNAVAILABLE = 14"

text \<open>
  A thrown JavaScript error: its \<open>code\<close> property (absent on a plain \<open>Error\<close>) and
  its message. \<open>GrpcError\<close> is the source's constructor with \<open>details = null\<close>.
\<close>

datatype js_error = JsError (code: "int option") (error_message: string)

definition GrpcError :: "int \<Rightarrow> string \<Rightarrow> js_error" where
  "GrpcError c m = JsError (Some c) m"

text \<open>
  An operation passed to \<open>withRetry\<close> or \<open>execute\<close> is an effectful thunk: it
  reads and changes the outside world \<open>'w\<close> and either throws or returns. Invoking it is
  the only way these functions change the world, so "the operation was not invoked" reads
  "the world is returned as it was", for every operation (in particular for one that counts
  its invocations in the world).
\<close>

type_synonym ('w, 'a) operation = "'w \<Rightarrow> (js_error + 'a) \<times> 'w"

subsection \<open>withRetry\<close>

text \<open>The test of the \<open>catch\<close> block: only these three codes are retried.\<close>

definition transient :: "js_error \<Rightarrow> bool" where
  "transient e \<longleftrightarrow>
     code e = Some UNAVAILABLE \<or> code e = Some DEADLINE_EXCEEDED \<or> code e = Some RESOURCE_EXHAUSTED"

text \<open>
  The \<open>for\<close> loop of \<open>withRetry\<close>, from a given value of \<open>attempt\<close>. The
  result carries what the promise settles to (\<open>Inl\<close> the rejection; \<open>Inr None\<close> is
  the \<open>undefined\<close> that the function returns when the loop body never runs), the delays
  handed to \<open>setTimeout\<close> so far, in order, and the world after the last invocation.
\<close>

function withRetry_loop ::
  "('w, 'a) operation \<Rightarrow> nat \<Rightarrow> int \<Rightarrow> nat \<Rightarrow> int list \<Rightarrow> 'w \<Rightarrow> (js_error + 'a option) \<times> int list \<times> 'w"
where
  "withRetry_loop operation maxRetries baseDelay attempt delays w =
     (if attempt \<le> maxRetries then
        (case operation w of
           (Inr result, w') \<Rightarrow> (Inr (Some result), delays, w')
         | (Inl error, w') \<Rightarrow>
             if attempt = maxRetries then (Inl error, delays, w')
             else if transient error then
               withRetry_loop operation maxRetries baseDelay (attempt + 1)
                 (delays @ [baseDelay * 2 ^ (attempt - 1)]) w'
             else (Inl error, delays, w'))
      else (Inr None, delays, w))"
  by pat_completeness auto
termination
  by (relation "measure (\<lambda>(operation, maxRetries, baseDelay, attempt, delays, w). Suc maxRetries - attempt)") auto

declare withRetry_loop.simps [simp del]

text \<open>
  \<open>withRetry(operation, maxRetries = 3, baseDelay = 1000)\<close>: an argument that is not
  passed (\<open>None\<close>) takes its default. The numbers are modelled as a natural number of
  attempts and an integer delay in milliseconds.
\<close>

definition withRetry ::
  "('w, 'a) operation \<Rightarrow> nat option \<Rightarrow> int option \<Rightarrow> 'w \<Rightarrow> (js_error + 'a option) \<times> int list \<times> 'w"
where
  "withRetry operation maxRetries_arg baseDelay_arg w =
     withRetry_loop operation
       (case maxRetries_arg of None \<Rightarrow> 3 | Some n \<Rightarrow> n)
       (case baseDelay_arg of None \<Rightarrow> 1000 | Some d \<Rightarrow> d) 1 [] w"

text \<open>
  The outcome of the \<open>k\<close>-th invocation of an operation (counting from 1) when it is
  invoked again and again from the world \<open>w\<close>, and the world after \<open>k\<close> invocations.
  They are used to state what \<open>withRetry\<close> does; the loop itself does not use them.
\<close>

fun world_after :: "('w, 'a) operation \<Rightarrow> 'w \<Rightarrow> nat \<Rightarrow> 'w" where
  "world_after operation w 0 = w"
| "world_after operation w (Suc k) = snd (operation (world_after operation w k))"

definition outcome_at :: "('w, 'a) operation \<Rightarrow> 'w \<Rightarrow> nat \<Rightarrow> js_error + 'a" where
  "outcome_at operation w k = fst (operation (world_after operation w (k - 1)))"

subsection \<open>CircuitBreaker\<close>

datatype breaker_state = CLOSED | OPEN | HALF_OPEN

record CircuitBreaker =
  failureThreshold :: nat
  resetTimeout :: int
  state :: breaker_state
  failures :: nat
  nextAttempt :: int

text \<open>
  The constructor's \<open>options\<close> object: a property may be absent. \<open>x || d\<close> yields
  \<open>d\<close> when \<open>x\<close> is absent or zero. The second argument is the value of
  \<open>Date.now()\<close> at construction.
\<close>

record breaker_options =
  opt_failureThreshold :: "nat option"
  opt_resetTimeout :: "int option"

definition CircuitBreaker_new :: "breaker_options \<Rightarrow> int \<Rightarrow> CircuitBreaker" where
  "CircuitBreaker_new options now =
     \<lparr> failureThreshold =
         (case opt_failureThreshold options of None \<Rightarrow> 5 | Some n \<Rightarrow> if n = 0 then 5 else n),
       resetTimeout =
         (case opt_resetTimeout options of None \<Rightarrow> 60000 | Some t \<Rightarrow> if t = 0 then 60000 else t),
       state = CLOSED,
       failures = 0,
       nextAttempt = now \<rparr>"

definition onSuccess :: "CircuitBreaker \<Rightarrow> CircuitBreaker" where
  "onSuccess cb = cb\<lparr>failures := 0, state := CLOSED\<rparr>"

definition onFailure :: "int \<Rightarrow> CircuitBreaker \<Rightarrow> CircuitBreaker" where
  "onFailure now cb =
     (let cb1 = cb\<lparr>failures := failures cb + 1\<rparr>
      in if failures cb1 \<ge> failureThreshold cb1
         then cb1\<lparr>state := OPEN, nextAttempt := now + resetTimeout cb1\<rparr>
         else cb1)"

text \<open>
  \<open>execute\<close> is an \<open>async\<close> function with one \<open>await\<close>. JavaScript runs it
  without interruption up to the call of the operation (\<open>execute_admit\<close>: the gate on
  the state, which either throws or lets the call through) and, once the operation has
  settled, from there to the end (\<open>execute_settle\<close>: \<open>onSuccess\<close> or
  \<open>onFailure\<close> on the breaker as it is then). Other calls can run in between.
\<close>

definition execute_admit :: "int \<Rightarrow> CircuitBreaker \<Rightarrow> js_error + CircuitBreaker" where
  "execute_admit now cb =
     (if state cb = OPEN then
        (if now < nextAttempt cb then Inl (GrpcError UNAVAILABLE ''Circuit breaker is OPEN'')
         else Inr (cb\<lparr>state := HALF_OPEN\<rparr>))
      else Inr cb)"

definition execute_settle ::
  "('w \<Rightarrow> int) \<Rightarrow> (js_error + 'a) \<times> 'w \<Rightarrow> CircuitBreaker \<Rightarrow> (js_error + 'a) \<times> CircuitBreaker \<times> 'w"
where
  "execute_settle Date_now outcome cb =
     (case outcome of
        (Inr result, w') \<Rightarrow> (Inr result, onSuccess cb, w')
      | (Inl error, w') \<Rightarrow> (Inl error, onFailure (Date_now w') cb, w'))"

text \<open>
  One call of \<open>execute\<close> with no other call in between: \<open>Date_now\<close> reads the
  clock of the world, which the operation may advance.
\<close>

definition execute ::
  "('w \<Rightarrow> int) \<Rightarrow> ('w, 'a) operation \<Rightarrow> CircuitBreaker \<Rightarrow> 'w \<Rightarrow> (js_error + 'a) \<times> CircuitBreaker \<times> 'w"
where
  "execute Date_now operation cb w =
     (case execute_admit (Date_now w) cb of
        Inl error \<Rightarrow> (Inl error, cb, w)
      | Inr cb1 \<Rightarrow> execute_settle Date_now (operation w) cb1)"

section \<open>LoadBalancer (src/unnamed/part_001, required as shared/utils/load-balancer)\<close>

text \<open>
  A JavaScript \<open>Set\<close> keeps its elements in insertion order, without duplicates, and
  \<open>Array.from\<close> lists them in that order: a list, with \<open>add\<close> appending an element
  that is not yet there.
\<close>

definition Set_add :: "'a list \<Rightarrow> 'a \<Rightarrow> 'a list" where
  "Set_add s x = (if x \<in> set s then s else s @ [x])"

definition Set_delete :: "'a list \<Rightarrow> 'a \<Rightarrow> 'a list" where
  "Set_delete s x = removeAll x s"

definition Set_from :: "'a list \<Rightarrow> 'a list" where
  "Set_from xs = foldl Set_add [] xs"

text \<open>Reading \<open>xs[i]\<close>: \<open>undefined\<close> (\<open>None\<close>) out of range.\<close>

definition js_index :: "'a list \<Rightarrow> nat \<Rightarrow> 'a option" where
  "js_index xs i = (if i < length xs then Some (xs ! i) else None)"

type_synonym endpoint = string

record health_record =
  status :: string
  checked_at :: int
  check_error :: "string option"

record LoadBalancer =
  endpoints :: "endpoint list"
  strategy :: string
  currentIndex :: nat
  healthyEndpoints :: "endpoint list"
  lastHealthCheck :: "endpoint \<rightharpoonup> health_record"

text \<open>
  The constructor; the strategy defaults to round-robin when the argument is absent. The
  health checks it starts run later, from a timer: each is a \<open>checkHealth\<close> below.
\<close>

definition LoadBalancer_new :: "endpoint list \<Rightarrow> string option \<Rightarrow> LoadBalancer" where
  "LoadBalancer_new eps strat =
     \<lparr> endpoints = eps,
       strategy = (case strat of None \<Rightarrow> ''round-robin'' | Some s \<Rightarrow> s),
       currentIndex = 0,
       healthyEndpoints = Set_from eps,
       lastHealthCheck = Map.empty \<rparr>"

text \<open>
  The cursor \<open>currentIndex\<close> is a natural number here; that a JavaScript number stops
  growing at \<open>2 ^ 53\<close> is left out.
\<close>

definition roundRobin :: "endpoint list \<Rightarrow> LoadBalancer \<Rightarrow> endpoint option \<times> LoadBalancer" where
  "roundRobin eps lb =
     (js_index eps (currentIndex lb mod length eps), lb\<lparr>currentIndex := currentIndex lb + 1\<rparr>)"

text \<open>
  \<open>Math.random()\<close> is an input: \<open>rand i\<close> is the value of the \<open>i\<close>-th call made
  during one \<open>getEndpoint\<close>, a real number in \<open>[0, 1)\<close>.
\<close>

definition random_pick :: "(nat \<Rightarrow> real) \<Rightarrow> endpoint list \<Rightarrow> endpoint option" where
  "random_pick rand eps = js_index eps (nat \<lfloor>rand 0 * real (length eps)\<rfloor>)"

definition getConnectionCount :: "real \<Rightarrow> int" where
  "getConnectionCount r = \<lfloor>r * 10\<rfloor>"

text \<open>
  \<open>endpoints.reduce(...)\<close> without an initial value: the first element is the first
  \<open>min\<close>, and each step draws a count for \<open>min\<close> and then for \<open>current\<close>.
\<close>

fun leastConnections_reduce :: "(nat \<Rightarrow> real) \<Rightarrow> nat \<Rightarrow> endpoint \<Rightarrow> endpoint list \<Rightarrow> endpoint" where
  "leastConnections_reduce rand i min_ep [] = min_ep"
| "leastConnections_reduce rand i min_ep (current # rest) =
     (let minConnections = getConnectionCount (rand i);
          currentConnections = getConnectionCount (rand (i + 1))
      in leastConnections_reduce rand (i + 2)
           (if currentConnections < minConnections then current else min_ep) rest)"

definition getEndpoint ::
  "(nat \<Rightarrow> real) \<Rightarrow> LoadBalancer \<Rightarrow> (js_error + endpoint option) \<times> LoadBalancer"
where
  "getEndpoint rand lb =
     (case healthyEndpoints lb of
        [] \<Rightarrow> (Inl (JsError None ''No healthy endpoints available''), lb)
      | first # rest \<Rightarrow>
          (let healthy = first # rest in
           if strategy lb = ''round-robin'' then
             (case roundRobin healthy lb of (e, lb') \<Rightarrow> (Inr e, lb'))
           else if strategy lb = ''random'' then (Inr (random_pick rand healthy), lb)
           else if strategy lb = ''least-connections'' then
             (Inr (Some (leastConnections_reduce rand 0 first rest)), lb)
           else (case roundRobin healthy lb of (e, lb') \<Rightarrow> (Inr e, lb'))))"

text \<open>
  \<open>checkHealth\<close> once its probe has settled: \<open>None\<close> when the endpoint was ready
  in time, \<open>Some msg\<close> when the probe failed with that message.
\<close>

definition checkHealth :: "endpoint \<Rightarrow> string option \<Rightarrow> int \<Rightarrow> LoadBalancer \<Rightarrow> LoadBalancer" where
  "checkHealth endpoint probe now lb =
     (case probe of
        None \<Rightarrow>
          lb\<lparr> healthyEndpoints := Set_add (healthyEndpoints lb) endpoint,
              lastHealthCheck := (lastHealthCheck lb)(endpoint \<mapsto>
                \<lparr>status = ''healthy'', checked_at = now, check_error = None\<rparr>) \<rparr>
      | Some msg \<Rightarrow>
          lb\<lparr> healthyEndpoints := Set_delete (healthyEndpoints lb) endpoint,
              lastHealthCheck := (lastHealthCheck lb)(endpoint \<mapsto>
                \<lparr>status = ''unhealthy'', checked_at = now, check_error = Some msg\<rparr>) \<rparr>)"

definition markUnhealthy :: "endpoint \<Rightarrow> LoadBalancer \<Rightarrow> LoadBalancer" where
  "markUnhealthy endpoint lb = lb\<lparr>healthyEndpoints := Set_delete (healthyEndpoints lb) endpoint\<rparr>"

text \<open>
  \<open>n\<close> successive calls of \<open>getEndpoint\<close>: what each returned, in order, and the
  balancer afterwards. \<open>rands k\<close> is the random input of the \<open>k\<close>-th call.
\<close>

fun getEndpoint_times ::
  "(nat \<Rightarrow> nat \<Rightarrow> real) \<Rightarrow> nat \<Rightarrow> LoadBalancer \<Rightarrow> (js_error + endpoint option) list \<times> LoadBalancer"
where
  "getEndpoint_times rands 0 lb = ([], lb)"
| "getEndpoint_times rands (Suc n) lb =
     (case getEndpoint_times rands n lb of
        (rs, lb1) \<Rightarrow> (case getEndpoint (rands n) lb1 of (r, lb2) \<Rightarrow> (rs @ [r], lb2)))"

section \<open>ChatService (src/unnamed/part_000, the chat server)\<close>

type_synonym user_id = string
type_synonym room_id = string

text \<open>
  A chat message as the handlers see it. \<open>msg_id\<close> and \<open>msg_type\<close> are the
  properties \<open>id\<close> and \<open>type\<close>; \<open>username\<close> is absent from the notifications
  that \<open>leaveRoom\<close>, \<open>updatePresence\<close> and the disconnect handler build;
  \<open>metadata\<close> holds the \<open>presence\<close> entry of a presence notification.
  Timestamps are \<open>Date.now()\<close> values, integers.
\<close>

record message =
  msg_id :: string
  room_id :: room_id
  user_id :: user_id
  username :: "string option"
  content :: string
  msg_type :: string
  timestamp :: int
  metadata :: "string option"

text \<open>
  A stream (\<open>call\<close>) object together with the two variables that \<open>chatStream\<close>
  closes over for it. \<open>written\<close> lists what \<open>write\<close> has sent to the client;
  \<open>write_throws\<close> says whether \<open>write\<close> throws at present, which is up to the
  transport, as is \<open>destroyed\<close> apart from the handler's own \<open>destroy\<close>.
\<close>

record call =
  destroyed :: bool
  write_throws :: bool
  written :: "message list"
  metadata_user_id :: "string list"
  userId :: "user_id option"
  currentRooms :: "room_id list"

text \<open>
  The five maps of the class, and the stream objects they and the handlers refer to, by
  number. A \<open>Set\<close> value is an insertion-ordered list.
\<close>

record ChatService =
  rooms :: "room_id \<rightharpoonup> user_id list"
  userStreams :: "user_id \<rightharpoonup> nat"
  userRooms :: "user_id \<rightharpoonup> room_id list"
  messageHistory :: "room_id \<rightharpoonup> message list"
  userPresence :: "user_id \<rightharpoonup> string"
  calls :: "nat \<Rightarrow> call"

definition new_call :: "string list \<Rightarrow> call" where
  "new_call md = \<lparr> destroyed = False, write_throws = False, written = [],
                   metadata_user_id = md, userId = None, currentRooms = [] \<rparr>"

definition ChatService_new :: ChatService where
  "ChatService_new = \<lparr> rooms = Map.empty, userStreams = Map.empty, userRooms = Map.empty,
                        messageHistory = Map.empty, userPresence = Map.empty,
                        calls = (\<lambda>c. new_call []) \<rparr>"

subsection \<open>Broadcast\<close>

text \<open>
  The body of the \<open>forEach\<close> in \<open>broadcastToRoom\<close>, for one member. The
  default \<open>excludeUserId = null\<close> is \<open>None\<close>, which no user id equals.
\<close>

definition deliver :: "message \<Rightarrow> user_id option \<Rightarrow> ChatService \<Rightarrow> user_id \<Rightarrow> ChatService" where
  "deliver message excludeUserId st uid =
     (if Some uid \<noteq> excludeUserId then
        (case userStreams st uid of
           None \<Rightarrow> st
         | Some c \<Rightarrow>
             if \<not> destroyed (calls st c) then
               (if write_throws (calls st c)
                then st\<lparr>userStreams := (userStreams st)(uid := None)\<rparr>
                else st\<lparr>calls := (calls st)(c := (calls st c)\<lparr>written := written (calls st c) @ [message]\<rparr>)\<rparr>)
             else st)
      else st)"

definition broadcastToRoom :: "room_id \<Rightarrow> message \<Rightarrow> user_id option \<Rightarrow> ChatService \<Rightarrow> ChatService" where
  "broadcastToRoom roomId message excludeUserId st =
     foldl (deliver message excludeUserId) st
       (case rooms st roomId of None \<Rightarrow> [] | Some roomUsers \<Rightarrow> roomUsers)"

text \<open>
  Used to state who receives a broadcast: the member \<open>uid\<close> is not the excluded user
  and the stream \<open>c\<close> is registered for it, is not destroyed and accepts a write.
\<close>

definition receives :: "ChatService \<Rightarrow> user_id option \<Rightarrow> nat \<Rightarrow> user_id \<Rightarrow> bool" where
  "receives st excludeUserId c uid \<longleftrightarrow>
     Some uid \<noteq> excludeUserId \<and> userStreams st uid = Some c \<and>
     \<not> destroyed (calls st c) \<and> \<not> write_throws (calls st c)"

definition members :: "ChatService \<Rightarrow> room_id \<Rightarrow> user_id list" where
  "members st roomId = (case rooms st roomId of None \<Rightarrow> [] | Some roomUsers \<Rightarrow> roomUsers)"

subsection \<open>Stream handlers\<close>

text \<open>
  \<open>uuid\<close> and \<open>now\<close> are the values that \<open>uuidv4()\<close> and \<open>Date.now()\<close>
  return in the call. \<open>handleChatMessage\<close> throws when the room is not among the rooms
  handed to it.
\<close>

definition push_history :: "room_id \<Rightarrow> message \<Rightarrow> ChatService \<Rightarrow> ChatService" where
  "push_history roomId message st =
     st\<lparr>messageHistory := (messageHistory st)(roomId \<mapsto>
          (case messageHistory st roomId of None \<Rightarrow> [] | Some h \<Rightarrow> h) @ [message])\<rparr>"

definition handleChatMessage ::
  "message \<Rightarrow> room_id list \<Rightarrow> string \<Rightarrow> int \<Rightarrow> ChatService \<Rightarrow> js_error + ChatService"
where
  "handleChatMessage message userRoomsArg uuid now st =
     (let roomId = room_id message in
      if roomId \<notin> set userRoomsArg then Inl (JsError None ''User not in room'')
      else
        (let message' = message\<lparr>msg_id := uuid, timestamp := now\<rparr>
         in Inr (broadcastToRoom roomId message' None (push_history roomId message' st))))"

definition handleTypingIndicator :: "message \<Rightarrow> room_id list \<Rightarrow> ChatService \<Rightarrow> ChatService" where
  "handleTypingIndicator message userRoomsArg st =
     (let roomId = room_id message in
      if roomId \<notin> set userRoomsArg then st
      else broadcastToRoom roomId message (Some (user_id message)) st)"

definition handleSystemMessage ::
  "message \<Rightarrow> room_id list \<Rightarrow> string \<Rightarrow> int \<Rightarrow> ChatService \<Rightarrow> ChatService"
where
  "handleSystemMessage message userRoomsArg uuid now st =
     (let roomId = room_id message;
          message' = message\<lparr>msg_id := uuid, timestamp := now\<rparr>
      in broadcastToRoom roomId message' None (push_history roomId message' st))"

text \<open>
  \<open>handleUserDisconnect\<close>: \<open>!userId\<close> holds for \<open>null\<close> and for the empty
  string. One notification per room of the connection; \<open>uuids r\<close> and \<open>nows r\<close> are
  the id and the time drawn in the iteration for room \<open>r\<close>.
\<close>

definition left_message :: "string \<Rightarrow> room_id \<Rightarrow> user_id \<Rightarrow> int \<Rightarrow> message" where
  "left_message uuid roomId uid now =
     \<lparr> msg_id = uuid, room_id = roomId, user_id = uid, username = None,
       content = ''User left the room'', msg_type = ''SYSTEM'', timestamp = now, metadata = None \<rparr>"

definition handleUserDisconnect ::
  "(room_id \<Rightarrow> string) \<Rightarrow> (room_id \<Rightarrow> int) \<Rightarrow> user_id option \<Rightarrow> room_id list \<Rightarrow> ChatService \<Rightarrow> ChatService"
where
  "handleUserDisconnect uuids nows userIdArg userRoomsArg st =
     (case userIdArg of
        None \<Rightarrow> st
      | Some uid \<Rightarrow>
          if uid = [] then st
          else
            foldl (\<lambda>s roomId. broadcastToRoom roomId (left_message (uuids roomId) roomId uid (nows roomId)) None s)
              (st\<lparr>userStreams := (userStreams st)(uid := None),
                  userPresence := (userPresence st)(uid \<mapsto> ''OFFLINE'')\<rparr>)
              userRoomsArg)"

definition destroy :: "nat \<Rightarrow> ChatService \<Rightarrow> ChatService" where
  "destroy c st = st\<lparr>calls := (calls st)(c := (calls st c)\<lparr>destroyed := True\<rparr>)\<rparr>"

text \<open>
  The first part of the \<open>data\<close> handler: while the connection has no user id, take it
  from the message or else from the call's metadata; without one the handler destroys the
  call and returns (\<open>None\<close>). Otherwise the call is stored as the user's stream and the
  rooms the user is in at that moment are copied into \<open>currentRooms\<close>. Nothing updates
  \<open>currentRooms\<close> afterwards.
\<close>

definition bind_user :: "nat \<Rightarrow> message \<Rightarrow> ChatService \<Rightarrow> ChatService option" where
  "bind_user c message st =
     (if (case userId (calls st c) of None \<Rightarrow> True | Some u \<Rightarrow> u = []) then
        (let candidate =
               (if user_id message \<noteq> [] then Some (user_id message)
                else (case metadata_user_id (calls st c) of
                        [] \<Rightarrow> None
                      | x # xs \<Rightarrow> if x \<noteq> [] then Some x else None))
         in case candidate of
              None \<Rightarrow> None
            | Some uid \<Rightarrow>
                Some (st\<lparr> userStreams := (userStreams st)(uid \<mapsto> c),
                          calls := (calls st)(c := (calls st c)
                            \<lparr> userId := Some uid,
                              currentRooms := foldl Set_add (currentRooms (calls st c))
                                (case userRooms st uid of None \<Rightarrow> [] | Some rs \<Rightarrow> rs) \<rparr>) \<rparr>))
      else Some st)"

text \<open>
  The \<open>data\<close> handler of the stream \<open>c\<close>. An exception from a message handler is
  caught and the call destroyed; message types outside the \<open>switch\<close> are dropped.
\<close>

definition on_data :: "nat \<Rightarrow> message \<Rightarrow> string \<Rightarrow> int \<Rightarrow> ChatService \<Rightarrow> ChatService" where
  "on_data c message uuid now st =
     (case bind_user c message st of
        None \<Rightarrow> destroy c st
      | Some st1 \<Rightarrow>
          (let rs = currentRooms (calls st1 c) in
           if msg_type message = ''TEXT'' \<or> msg_type message = ''IMAGE'' \<or> msg_type message = ''FILE'' then
             (case handleChatMessage message rs uuid now st1 of
                Inl error \<Rightarrow> destroy c st1
              | Inr st2 \<Rightarrow> st2)
           else if msg_type message = ''TYPING'' then handleTypingIndicator message rs st1
           else if msg_type message = ''SYSTEM'' then handleSystemMessage message rs uuid now st1
           else st1))"

text \<open>The \<open>end\<close>, \<open>error\<close> and \<open>cancelled\<close> handlers are the same.\<close>

definition on_close :: "nat \<Rightarrow> (room_id \<Rightarrow> string) \<Rightarrow> (room_id \<Rightarrow> int) \<Rightarrow> ChatService \<Rightarrow> ChatService" where
  "on_close c uuids nows st =
     handleUserDisconnect uuids nows (userId (calls st c)) (currentRooms (calls st c)) st"

text \<open>\<open>chatStream(call)\<close>: a new stream, with its closure variables at their initial values.\<close>

definition chatStream :: "nat \<Rightarrow> string list \<Rightarrow> ChatService \<Rightarrow> ChatService" where
  "chatStream c md st = st\<lparr>calls := (calls st)(c := new_call md)\<rparr>"

subsection \<open>Unary calls\<close>

record join_response =
  success :: bool
  response_message :: string
  participants :: "user_id list"

definition joinRoom ::
  "room_id \<Rightarrow> user_id \<Rightarrow> string \<Rightarrow> string \<Rightarrow> int \<Rightarrow> ChatService \<Rightarrow> join_response \<times> ChatService"
where
  "joinRoom roomId uid name uuid now st =
     (let members = Set_add (case rooms st roomId of None \<Rightarrow> [] | Some us \<Rightarrow> us) uid;
          st1 = st\<lparr> rooms := (rooms st)(roomId \<mapsto> members),
                    userRooms := (userRooms st)(uid \<mapsto>
                      Set_add (case userRooms st uid of None \<Rightarrow> [] | Some rs \<Rightarrow> rs) roomId),
                    userPresence := (userPresence st)(uid \<mapsto> ''ONLINE'') \<rparr>;
          joinMessage = \<lparr> msg_id = uuid, room_id = roomId, user_id = uid, username = Some name,
                          content = name @ '' joined the room'', msg_type = ''SYSTEM'',
                          timestamp = now, metadata = None \<rparr>
      in (\<lparr> success = True, response_message = ''Successfully joined room'', participants = members \<rparr>,
          broadcastToRoom roomId joinMessage None st1))"

text \<open>
  \<open>leaveRoom\<close> answers \<open>{success: true, message: 'Successfully left room'}\<close> in every
  case; only the state is returned here.
\<close>

definition leaveRoom :: "room_id \<Rightarrow> user_id \<Rightarrow> string \<Rightarrow> int \<Rightarrow> ChatService \<Rightarrow> ChatService" where
  "leaveRoom roomId uid uuid now st =
     (let st1 = (case rooms st roomId of
                   None \<Rightarrow> st
                 | Some us \<Rightarrow>
                     (let us' = Set_delete us uid
                      in if length us' = 0 then st\<lparr>rooms := (rooms st)(roomId := None)\<rparr>
                         else st\<lparr>rooms := (rooms st)(roomId \<mapsto> us')\<rparr>));
          st2 = (case userRooms st1 uid of
                   None \<Rightarrow> st1
                 | Some rs \<Rightarrow> st1\<lparr>userRooms := (userRooms st1)(uid \<mapsto> Set_delete rs roomId)\<rparr>)
      in broadcastToRoom roomId (left_message uuid roomId uid now) None st2)"

text \<open>
  \<open>getHistory\<close>. \<open>limit\<close> is \<open>None\<close> when the request has no such property (only
  then does the default 50 apply) and \<open>before_timestamp\<close> likewise; the test
  \<open>if (before_timestamp)\<close> also fails for 0. \<open>sort\<close> is stable and works in place:
  when no filter has made a copy, it reorders the stored array. \<open>slice(0, end)\<close> with a
  negative \<open>end\<close> counts from the end of the array.
\<close>

definition js_sort_desc :: "message list \<Rightarrow> message list" where
  "js_sort_desc ms = sort_key (\<lambda>m. - timestamp m) ms"

definition js_slice0 :: "'a list \<Rightarrow> int \<Rightarrow> 'a list" where
  "js_slice0 xs end_ix = (if end_ix < 0 then take (nat (int (length xs) + end_ix)) xs else take (nat end_ix) xs)"

record history_response =
  messages :: "message list"
  has_more :: bool

definition getHistory ::
  "room_id \<Rightarrow> int option \<Rightarrow> int option \<Rightarrow> ChatService \<Rightarrow> history_response \<times> ChatService"
where
  "getHistory roomId limit_arg before_timestamp st =
     (let limit = (case limit_arg of None \<Rightarrow> 50 | Some l \<Rightarrow> l);
          stored = (case messageHistory st roomId of None \<Rightarrow> [] | Some h \<Rightarrow> h);
          filtering = (case before_timestamp of None \<Rightarrow> False | Some b \<Rightarrow> b \<noteq> 0);
          considered = (case before_timestamp of
                          None \<Rightarrow> stored
                        | Some b \<Rightarrow> if b \<noteq> 0 then filter (\<lambda>msg. timestamp msg < b) stored else stored);
          sorted_msgs = js_sort_desc considered;
          st' = (if \<not> filtering \<and> messageHistory st roomId \<noteq> None
                 then st\<lparr>messageHistory := (messageHistory st)(roomId \<mapsto> sorted_msgs)\<rparr>
                 else st);
          sliced = js_slice0 sorted_msgs limit;
          hasMore = (int (length sliced) = limit)
      in (\<lparr> messages = rev sliced, has_more = hasMore \<rparr>, st'))"

text \<open>
  \<open>updatePresence\<close>; the rooms are those recorded for the user in \<open>userRooms\<close>.
  \<open>toLowerCase\<close> is given for ASCII letters.
\<close>

definition toLowerCase :: "string \<Rightarrow> string" where
  "toLowerCase s =
     map (\<lambda>c. if c \<in> set ''ABCDEFGHIJKLMNOPQRSTUVWXYZ'' then char_of (of_char c + (32::nat)) else c) s"

definition presence_message :: "string \<Rightarrow> room_id \<Rightarrow> user_id \<Rightarrow> string \<Rightarrow> int \<Rightarrow> message" where
  "presence_message uuid roomId uid stat now =
     \<lparr> msg_id = uuid, room_id = roomId, user_id = uid, username = None,
       content = ''User is now '' @ toLowerCase stat, msg_type = ''SYSTEM'', timestamp = now,
       metadata = Some stat \<rparr>"

definition updatePresence ::
  "user_id \<Rightarrow> string \<Rightarrow> (room_id \<Rightarrow> string) \<Rightarrow> (room_id \<Rightarrow> int) \<Rightarrow> ChatService \<Rightarrow> ChatService"
where
  "updatePresence uid stat uuids nows st =
     foldl (\<lambda>s roomId. broadcastToRoom roomId
              (presence_message (uuids roomId) roomId uid stat (nows roomId)) (Some uid) s)
       (st\<lparr>userPresence := (userPresence st)(uid \<mapsto> stat)\<rparr>)
       (case userRooms st uid of None \<Rightarrow> [] | Some rs \<Rightarrow> rs)"

subsection \<open>Executions\<close>

text \<open>
  Each handler runs to completion, so an execution of the service is a sequence of events:
  a new stream, a message or a close event on a stream, a unary call, or the transport
  changing the condition of a stream.
\<close>

datatype event =
    ChatStream nat "string list"
  | Data nat message string int
  | Close nat "room_id \<Rightarrow> string" "room_id \<Rightarrow> int"
  | JoinRoom room_id user_id string string int
  | LeaveRoom room_id user_id string int
  | GetHistory room_id "int option" "int option"
  | UpdatePresence user_id string "room_id \<Rightarrow> string" "room_id \<Rightarrow> int"
  | Transport nat bool bool

fun step :: "ChatService \<Rightarrow> event \<Rightarrow> ChatService" where
  "step st (ChatStream c md) = chatStream c md st"
| "step st (Data c message uuid now) = on_data c message uuid now st"
| "step st (Close c uuids nows) = on_close c uuids nows st"
| "step st (JoinRoom roomId uid name uuid now) = snd (joinRoom roomId uid name uuid now st)"
| "step st (LeaveRoom roomId uid uuid now) = leaveRoom roomId uid uuid now st"
| "step st (GetHistory roomId limit_arg before_timestamp) = snd (getHistory roomId limit_arg before_timestamp st)"
| "step st (UpdatePresence uid stat uuids nows) = updatePresence uid stat uuids nows st"
| "step st (Transport c d t) = st\<lparr>calls := (calls st)(c := (calls st c)\<lparr>destroyed := d, write_throws := t\<rparr>)\<rparr>"

definition run :: "event list \<Rightarrow> ChatService" where
  "run evs = foldl step ChatService_new evs"

subsection \<open>Notions used to state the properties\<close>

text \<open>
  A run of \<open>joinRoom\<close> and \<open>leaveRoom\<close> calls for one user and one room; each call
  brings its own display name, message id and time.
\<close>

datatype membership_call = Join string string int | Leave string int

fun membership_event :: "room_id \<Rightarrow> user_id \<Rightarrow> membership_call \<Rightarrow> event" where
  "membership_event roomId uid (Join name uuid now) = JoinRoom roomId uid name uuid now"
| "membership_event roomId uid (Leave uuid now) = LeaveRoom roomId uid uuid now"

fun is_join :: "membership_call \<Rightarrow> bool" where
  "is_join (Join name uuid now) = True"
| "is_join (Leave uuid now) = False"

definition after_calls :: "ChatService \<Rightarrow> room_id \<Rightarrow> user_id \<Rightarrow> membership_call list \<Rightarrow> ChatService" where
  "after_calls st roomId uid cs = foldl step st (map (membership_event roomId uid) cs)"

text \<open>
  The member sets of the registry are proper \<open>Set\<close> values, and no room is registered
  with an empty set.
\<close>

definition rooms_ok :: "ChatService \<Rightarrow> bool" where
  "rooms_ok st \<longleftrightarrow> (\<forall>roomId us. rooms st roomId = Some us \<longrightarrow> us \<noteq> [] \<and> distinct us)"

text \<open>No stored message is a typing indicator.\<close>

definition no_typing :: "ChatService \<Rightarrow> bool" where
  "no_typing st \<longleftrightarrow>
     (\<forall>roomId h. messageHistory st roomId = Some h \<longrightarrow> (\<forall>m \<in> set h. msg_type m \<noteq> ''TYPING''))"

section \<open>Example inputs\<close>

text \<open>
  A small world for the examples below: a clock and the number of invocations made so far.
  Each invocation takes five milliseconds.
\<close>

definition failing_op :: "js_error \<Rightarrow> (int \<times> nat, unit) operation" where
  "failing_op e = (\<lambda>(t, n). (Inl e, (t + 5, n + 1)))"

definition succeeding_op :: "(int \<times> nat, unit) operation" where
  "succeeding_op = (\<lambda>(t, n). (Inr (), (t + 5, n + 1)))"

text \<open>
  A breaker built at time 0 with \<open>failureThreshold = 2\<close> and \<open>resetTimeout = 1000\<close>;
  the same breaker after two failed calls; and after a further call, made at time 1010, has
  passed the gate and is waiting for its operation.
\<close>

definition example_breaker :: CircuitBreaker where
  "example_breaker = CircuitBreaker_new \<lparr>opt_failureThreshold = Some 2, opt_resetTimeout = Some 1000\<rparr> 0"

definition tripped_breaker :: CircuitBreaker where
  "tripped_breaker =
     fst (snd (execute fst (failing_op (JsError None ''boom''))
       (fst (snd (execute fst (failing_op (JsError None ''boom'')) example_breaker (0, 0)))) (5, 1)))"

definition trial_breaker :: CircuitBreaker where
  "trial_breaker = (case execute_admit 1010 tripped_breaker of Inr cb \<Rightarrow> cb | Inl e \<Rightarrow> tripped_breaker)"

text \<open>
  A short execution of the chat service: Ana joins the room \<open>general\<close>, opens a stream
  and sends three text messages, which the server stamps with the times 5, 7 and 9.
\<close>

definition chat_text :: "room_id \<Rightarrow> user_id \<Rightarrow> string \<Rightarrow> message" where
  "chat_text roomId uid txt =
     \<lparr> msg_id = [], room_id = roomId, user_id = uid, username = Some uid, content = txt,
       msg_type = ''TEXT'', timestamp = 0, metadata = None \<rparr>"

definition three_texts :: "event list" where
  "three_texts =
     [JoinRoom ''general'' ''ana'' ''Ana'' ''id-1'' 1,
      ChatStream 0 [],
      Data 0 (chat_text ''general'' ''ana'' ''one'') ''id-2'' 5,
      Data 0 (chat_text ''general'' ''ana'' ''two'') ''id-3'' 7,
      Data 0 (chat_text ''general'' ''ana'' ''three'') ''id-4'' 9]"

text \<open>The same execution, after which Ana, the only member, leaves the room.\<close>

definition texts_then_leave :: "event list" where
  "texts_then_leave = three_texts @ [LeaveRoom ''general'' ''ana'' ''id-5'' 11]"

text \<open>
  Two users: Ana and Bob join \<open>general\<close>, each opens a stream and sends one text
  message, which binds the stream to the user.
\<close>

definition two_users :: "event list" where
  "two_users =
     [JoinRoom ''general'' ''ana'' ''Ana'' ''id-1'' 1,
      JoinRoom ''general'' ''bob'' ''Bob'' ''id-2'' 2,
      ChatStream 0 [],
      ChatStream 1 [],
      Data 0 (chat_text ''general'' ''ana'' ''hello'') ''id-3'' 3,
      Data 1 (chat_text ''general'' ''bob'' ''hi'') ''id-4'' 4]"

definition typing_from :: "room_id \<Rightarrow> user_id \<Rightarrow> message" where
  "typing_from roomId uid =
     \<lparr> msg_id = [], room_id = roomId, user_id = uid, username = Some uid, content = ''typing...'',
       msg_type = ''TYPING'', timestamp = 0, metadata = None \<rparr>"

definition notice_from :: "room_id \<Rightarrow> user_id \<Rightarrow> message" where
  "notice_from roomId uid =
     \<lparr> msg_id = [], room_id = roomId, user_id = uid, username = Some uid, content = ''notice'',
       msg_type = ''SYSTEM'', timestamp = 0, metadata = None \<rparr>"

text \<open>
  Then Carl joins and Ana reports herself away; or else Ana leaves the room and afterwards
  sends a typing indicator for it on her stream.
\<close>

definition join_and_presence :: "event list" where
  "join_and_presence =
     two_users @ [JoinRoom ''general'' ''carl'' ''Carl'' ''id-5'' 5,
                  UpdatePresence ''ana'' ''AWAY'' (\<lambda>r. ''id-6'') (\<lambda>r. 6)]"

definition typing_after_leave :: "event list" where
  "typing_after_leave =
     two_users @ [LeaveRoom ''general'' ''ana'' ''id-5'' 5,
                  Data 0 (typing_from ''general'' ''ana'') ''id-6'' 6]"

text \<open>
  Dana opens her stream and sends on it before she joins \<open>general\<close>; as a member she
  then sends a typing indicator for the room, where Bob is listening.
\<close>

definition typing_after_late_join :: "event list" where
  "typing_after_late_join =
     two_users @ [ChatStream 2 [],
                  Data 2 (typing_from ''lobby'' ''dana'') ''id-5'' 5,
                  JoinRoom ''general'' ''dana'' ''Dana'' ''id-6'' 6,
                  Data 2 (typing_from ''general'' ''dana'') ''id-7'' 7]"

text \<open>The same, but the message she sends as a member is a text message.\<close>

definition text_after_late_join :: "event list" where
  "text_after_late_join =
     two_users @ [ChatStream 2 [],
                  Data 2 (typing_from ''lobby'' ''dana'') ''id-5'' 5,
                  JoinRoom ''general'' ''dana'' ''Dana'' ''id-6'' 6,
                  Data 2 (chat_text ''general'' ''dana'' ''hey'') ''id-7'' 7]"

section \<open>Properties of withRetry\<close>

lemma withRetry_loop_char:
  fixes operation :: "('w, 'a) operation"
  assumes "1 \<le> a" "a \<le> M" "w = world_after operation w0 (a - 1)"
    and "withRetry_loop operation M b a ds w = (res, ds', w')"
  shows "\<exists>k. a \<le> k \<and> k \<le> M \<and>
     (\<forall>j. a \<le> j \<and> j < k \<longrightarrow> (\<exists>e. outcome_at operation w0 j = Inl e \<and> transient e)) \<and>
     (case outcome_at operation w0 k of
        Inr v \<Rightarrow> res = Inr (Some v)
      | Inl e \<Rightarrow> res = Inl e \<and> (k = M \<or> \<not> transient e)) \<and>
     ds' = ds @ map (\<lambda>n. b * 2 ^ (n - 2)) [a + 1..<k + 1] \<and>
     w' = world_after operation w0 k"
  using assms
proof (induction operation M b a ds w arbitrary: res ds' w' rule: withRetry_loop.induct)
  case (1 operation M b a ds w)
  obtain r w1 where op: "operation w = (r, w1)" by (cases "operation w")
  have w1: "w1 = world_after operation w0 a"
    using op "1.prems"(1,3) by (cases a) auto
  have oa: "outcome_at operation w0 a = r"
    using op "1.prems"(3) by (simp add: outcome_at_def)
  show ?case
  proof (cases r)
    case (Inr v)
    with op "1.prems" have "res = Inr (Some v)" "ds' = ds" "w' = w1"
      by (simp_all add: withRetry_loop.simps)
    with Inr oa w1 "1.prems"(2) show ?thesis
      by (intro exI[of _ a]) auto
  next
    case (Inl e)
    show ?thesis
    proof (cases "a = M \<or> \<not> transient e")
      case True
      with Inl op "1.prems" have "res = Inl e" "ds' = ds" "w' = w1"
        by (auto simp add: withRetry_loop.simps split: if_splits)
      with Inl oa w1 "1.prems"(2) True show ?thesis
        by (intro exI[of _ a]) auto
    next
      case False
      then have lt: "a < M" and tr: "transient e" using "1.prems"(2) by auto
      have rec: "withRetry_loop operation M b (a + 1) (ds @ [b * 2 ^ (a - 1)]) w1 = (res, ds', w')"
        using "1.prems"(4) Inl op lt tr by (subst (asm) withRetry_loop.simps) simp
      have "\<exists>k. a + 1 \<le> k \<and> k \<le> M \<and>
         (\<forall>j. a + 1 \<le> j \<and> j < k \<longrightarrow> (\<exists>e. outcome_at operation w0 j = Inl e \<and> transient e)) \<and>
         (case outcome_at operation w0 k of
            Inr v \<Rightarrow> res = Inr (Some v)
          | Inl e \<Rightarrow> res = Inl e \<and> (k = M \<or> \<not> transient e)) \<and>
         ds' = (ds @ [b * 2 ^ (a - 1)]) @ map (\<lambda>n. b * 2 ^ (n - 2)) [a + 1 + 1..<k + 1] \<and>
         w' = world_after operation w0 k"
        using "1.IH"[OF _ op[symmetric] _ _ _ _ _ _ rec] Inl lt tr w1 "1.prems"(1,2)
        by simp
      then obtain k where k: "a + 1 \<le> k" "k \<le> M"
        "\<forall>j. a + 1 \<le> j \<and> j < k \<longrightarrow> (\<exists>e. outcome_at operation w0 j = Inl e \<and> transient e)"
        "(case outcome_at operation w0 k of
            Inr v \<Rightarrow> res = Inr (Some v)
          | Inl e \<Rightarrow> res = Inl e \<and> (k = M \<or> \<not> transient e))"
        "ds' = (ds @ [b * 2 ^ (a - 1)]) @ map (\<lambda>n. b * 2 ^ (n - 2)) [a + 1 + 1..<k + 1]"
        "w' = world_after operation w0 k" by blast
      have j: "\<forall>j. a \<le> j \<and> j < k \<longrightarrow> (\<exists>e. outcome_at operation w0 j = Inl e \<and> transient e)"
      proof (intro allI impI)
        fix j assume "a \<le> j \<and> j < k"
        then consider "j = a" | "a + 1 \<le> j \<and> j < k" by linarith
        then show "\<exists>e. outcome_at operation w0 j = Inl e \<and> transient e"
          using oa Inl tr k(3) by cases auto
      qed
      have "[a + 1..<k + 1] = (a + 1) # [a + 1 + 1..<k + 1]"
        using k(1) by (simp add: upt_conv_Cons)
      then have d: "ds' = ds @ map (\<lambda>n. b * 2 ^ (n - 2)) [a + 1..<k + 1]"
        using k(5) by simp
      show ?thesis
        using k(1,2,4,6) j d by (intro exI[of _ k]) simp
    qed
  qed
qed

text \<open>
  Claim C4. Let \<open>maxRetries\<close> and \<open>baseDelay\<close> be the values the call runs with
  (3 and 1000 unless passed), \<open>maxRetries \<ge> 1\<close>. \<open>withRetry\<close> invokes the operation
  some number \<open>k\<close> of times, \<open>1 \<le> k \<le> maxRetries\<close>. Every attempt before the
  \<open>k\<close>-th failed with a transient error (only those are retried). The \<open>k\<close>-th
  attempt either succeeded, and its result is returned, or failed, and then its error is
  what \<open>withRetry\<close> throws, unchanged, and either it was not transient (such a failure
  propagates at once) or \<open>k = maxRetries\<close> (the attempts are used up). The delays slept
  are, in order, those before the attempts \<open>2, \<dots>, k\<close>, and the delay before attempt
  \<open>n\<close> is \<open>baseDelay * 2 ^ (n - 2)\<close>: 1000 and 2000 with the defaults.
\<close>

theorem withRetry_retries_transient_with_backoff:
  fixes operation :: "('w, 'a) operation"
  assumes "maxRetries = (case maxRetries_arg of None \<Rightarrow> 3 | Some n \<Rightarrow> n)"
    and "baseDelay = (case baseDelay_arg of None \<Rightarrow> 1000 | Some d \<Rightarrow> d)"
    and "1 \<le> maxRetries"
    and "withRetry operation maxRetries_arg baseDelay_arg w = (res, delays, w')"
  shows "\<exists>k. 1 \<le> k \<and> k \<le> maxRetries \<and>
     (\<forall>j. 1 \<le> j \<and> j < k \<longrightarrow> (\<exists>e. outcome_at operation w j = Inl e \<and> transient e)) \<and>
     (case outcome_at operation w k of
        Inr v \<Rightarrow> res = Inr (Some v)
      | Inl e \<Rightarrow> res = Inl e \<and> (k = maxRetries \<or> \<not> transient e)) \<and>
     delays = map (\<lambda>n. baseDelay * 2 ^ (n - 2)) [2..<k + 1] \<and>
     w' = world_after operation w k"
proof -
  have l: "withRetry_loop operation maxRetries baseDelay 1 [] w = (res, delays, w')"
    using assms(4) unfolding withRetry_def assms(1,2) .
  have "w = world_after operation w (1 - 1)" by simp
  from withRetry_loop_char[OF order_refl assms(3) this l]
  show ?thesis unfolding one_add_one append_Nil .
qed

theorem withRetry_retries_transient_with_backoff_witness:
  "(1::nat) \<le> 3 \<and>
   withRetry (failing_op (GrpcError UNAVAILABLE ''down'')) None None (0, 0)
     = (Inl (GrpcError UNAVAILABLE ''down''), [1000, 2000], (15, 3)) \<and>
   withRetry (failing_op (GrpcError 3 ''bad'')) None None (0, 0)
     = (Inl (GrpcError 3 ''bad''), [], (5, 1)) \<and>
   (\<exists>k. 1 \<le> k \<and> k \<le> (3::nat) \<and>
      (\<forall>j. 1 \<le> j \<and> j < k \<longrightarrow>
         (\<exists>e. outcome_at (failing_op (GrpcError UNAVAILABLE ''down'')) (0, 0) j = Inl e \<and> transient e)) \<and>
      (case outcome_at (failing_op (GrpcError UNAVAILABLE ''down'')) (0, 0) k of
         Inr v \<Rightarrow> Inl (GrpcError UNAVAILABLE ''down'') = Inr (Some v)
       | Inl e \<Rightarrow> (Inl (GrpcError UNAVAILABLE ''down'') :: js_error + unit option) = Inl e \<and>
                  (k = 3 \<or> \<not> transient e)) \<and>
      [1000, 2000] = map (\<lambda>n. (1000::int) * 2 ^ (n - 2)) [2..<k + 1] \<and>
      (15, 3) = world_after (failing_op (GrpcError UNAVAILABLE ''down'')) (0, 0) k)"
proof -
  have h1: "(1::nat) \<le> 3" by simp
  have h2: "withRetry (failing_op (GrpcError UNAVAILABLE ''down'')) None None (0, 0)
     = (Inl (GrpcError UNAVAILABLE ''down''), [1000, 2000], (15, 3))"
    by (simp add: withRetry_def withRetry_loop.simps failing_op_def transient_def GrpcError_def
        UNAVAILABLE_def)
  have h3: "withRetry (failing_op (GrpcError 3 ''bad'')) None None (0, 0)
     = (Inl (GrpcError 3 ''bad''), [], (5, 1))"
    by (simp add: withRetry_def withRetry_loop.simps failing_op_def transient_def GrpcError_def
        UNAVAILABLE_def DEADLINE_EXCEEDED_def RESOURCE_EXHAUSTED_def)
  have d1: "(3::nat) = (case None of None \<Rightarrow> 3 | Some n \<Rightarrow> n)"
    and d2: "(1000::int) = (case None of None \<Rightarrow> 1000 | Some d \<Rightarrow> d)"
    by simp_all
  note c = withRetry_retries_transient_with_backoff[OF d1 d2 h1 h2]
  show ?thesis by (rule conjI[OF h1 conjI[OF h2 conjI[OF h3 c]]])
qed

section \<open>Properties of CircuitBreaker\<close>

lemmas breaker_defs =
  execute_def execute_admit_def execute_settle_def onFailure_def onSuccess_def Let_def

text \<open>
  Claim C2. Take a breaker with \<open>failureThreshold = 2\<close> that is CLOSED with no failure
  counted, and two calls in a row whose operations throw. Both calls rethrow the
  operation's error, and afterwards the breaker is OPEN with
  \<open>nextAttempt = now + resetTimeout\<close>, \<open>now\<close> being the clock when the second
  operation failed. From there: a call made while the clock is before \<open>nextAttempt\<close>
  throws the circuit-open error and leaves the world and the breaker as they were, so the
  operation is not invoked and the next call meets the same breaker; a call made at or
  after \<open>nextAttempt\<close> invokes its operation, and if that succeeds the breaker is
  CLOSED with the failure counter at zero, while if it throws the breaker is OPEN again
  with \<open>nextAttempt\<close> set anew from the clock at that failure.
\<close>

theorem breaker_trips_after_two_failures:
  fixes opa opb :: "('w, 'a) operation"
  assumes "failureThreshold cb = 2" "state cb = CLOSED" "failures cb = 0"
    and "opa wa = (Inl ea, wb)" "opb wb = (Inl eb, wc)"
  shows "\<exists>cb1 cb2.
     execute Date_now opa cb wa = (Inl ea, cb1, wb) \<and>
     execute Date_now opb cb1 wb = (Inl eb, cb2, wc) \<and>
     state cb2 = OPEN \<and> nextAttempt cb2 = Date_now wc + resetTimeout cb \<and>
     (\<forall>(op :: ('w, 'a) operation) w. Date_now w < nextAttempt cb2 \<longrightarrow>
        execute Date_now op cb2 w = (Inl (GrpcError UNAVAILABLE ''Circuit breaker is OPEN''), cb2, w)) \<and>
     (\<forall>(op :: ('w, 'a) operation) w v w'. nextAttempt cb2 \<le> Date_now w \<and> op w = (Inr v, w') \<longrightarrow>
        (\<exists>cb'. execute Date_now op cb2 w = (Inr v, cb', w') \<and> state cb' = CLOSED \<and> failures cb' = 0)) \<and>
     (\<forall>(op :: ('w, 'a) operation) w e w'. nextAttempt cb2 \<le> Date_now w \<and> op w = (Inl e, w') \<longrightarrow>
        (\<exists>cb'. execute Date_now op cb2 w = (Inl e, cb', w') \<and> state cb' = OPEN \<and>
               nextAttempt cb' = Date_now w' + resetTimeout cb))"
proof -
  let ?cb1 = "cb\<lparr>failures := 1\<rparr>"
  let ?cb2 = "cb\<lparr>failures := 2, state := OPEN, nextAttempt := Date_now wc + resetTimeout cb\<rparr>"
  have c1: "execute Date_now opa cb wa = (Inl ea, ?cb1, wb)"
    using assms(1-4) by (simp add: breaker_defs)
  have c2: "execute Date_now opb ?cb1 wb = (Inl eb, ?cb2, wc)"
    using assms(1-3,5) by (simp add: breaker_defs)
  have c3: "state ?cb2 = OPEN" "nextAttempt ?cb2 = Date_now wc + resetTimeout cb"
    by simp_all
  have c4: "\<forall>(op :: ('w, 'a) operation) w. Date_now w < nextAttempt ?cb2 \<longrightarrow>
        execute Date_now op ?cb2 w = (Inl (GrpcError UNAVAILABLE ''Circuit breaker is OPEN''), ?cb2, w)"
    by (simp add: breaker_defs)
  have c5: "\<forall>(op :: ('w, 'a) operation) w v w'. nextAttempt ?cb2 \<le> Date_now w \<and> op w = (Inr v, w') \<longrightarrow>
        (\<exists>cb'. execute Date_now op ?cb2 w = (Inr v, cb', w') \<and> state cb' = CLOSED \<and> failures cb' = 0)"
    by (simp add: breaker_defs)
  have c6: "\<forall>(op :: ('w, 'a) operation) w e w'. nextAttempt ?cb2 \<le> Date_now w \<and> op w = (Inl e, w') \<longrightarrow>
        (\<exists>cb'. execute Date_now op ?cb2 w = (Inl e, cb', w') \<and> state cb' = OPEN \<and>
               nextAttempt cb' = Date_now w' + resetTimeout cb)"
    using assms(1) by (simp add: breaker_defs)
  show ?thesis
    by (intro exI[of _ ?cb1] exI[of _ ?cb2] conjI c1 c2 c3 c4 c5 c6)
qed

lemma example_breaker_simps:
  "failureThreshold example_breaker = 2" "state example_breaker = CLOSED"
  "failures example_breaker = 0" "resetTimeout example_breaker = 1000"
  by (simp_all add: example_breaker_def CircuitBreaker_new_def)

theorem breaker_trips_after_two_failures_witness:
  "failureThreshold example_breaker = 2 \<and> state example_breaker = CLOSED \<and>
   failures example_breaker = 0 \<and>
   state tripped_breaker = OPEN \<and> nextAttempt tripped_breaker = 1010 \<and>
   execute fst succeeding_op tripped_breaker (1009, 2)
     = (Inl (GrpcError UNAVAILABLE ''Circuit breaker is OPEN''), tripped_breaker, (1009, 2))"
proof -
  let ?f = "failing_op (JsError None ''boom'')"
  have h4: "?f (0, 0) = (Inl (JsError None ''boom''), (5, 1))"
    and h5: "?f (5, 1) = (Inl (JsError None ''boom''), (10, 2))"
    by (simp_all add: failing_op_def)
  from breaker_trips_after_two_failures[where opa = ?f and opb = ?f and wa = "(0, 0)"
      and wb = "(5, 1)" and Date_now = fst, OF example_breaker_simps(1-3) h4 h5]
  obtain cb1 cb2 where
    e1: "execute fst ?f example_breaker (0, 0) = (Inl (JsError None ''boom''), cb1, (5, 1))" and
    e2: "execute fst ?f cb1 (5, 1) = (Inl (JsError None ''boom''), cb2, (10, 2))" and
    st: "state cb2 = OPEN" and na: "nextAttempt cb2 = fst (10::int, 2::nat) + resetTimeout example_breaker" and
    rej: "\<forall>(op :: (int \<times> nat, unit) operation) w. fst w < nextAttempt cb2 \<longrightarrow>
        execute fst op cb2 w = (Inl (GrpcError UNAVAILABLE ''Circuit breaker is OPEN''), cb2, w)"
    by (elim exE conjE)
  have t: "tripped_breaker = cb2"
    by (simp only: tripped_breaker_def e1 e2 fst_conv snd_conv)
  have "fst (1009::int, 2::nat) < nextAttempt cb2"
    by (simp add: na example_breaker_simps)
  with rej have "execute fst succeeding_op cb2 (1009, 2)
     = (Inl (GrpcError UNAVAILABLE ''Circuit breaker is OPEN''), cb2, (1009, 2))"
    by blast
  with t st na show ?thesis
    by (simp add: example_breaker_simps)
qed

text \<open>
  Claim C3, as stated, fails: the breaker keeps no record of a trial in flight. The breaker
  of the example is OPEN with \<open>nextAttempt = 1010\<close>. A first call at time 1010 passes
  the gate, which makes the state HALF_OPEN, and waits for its operation. A second call
  arriving then passes the gate as well, and its operation is invoked (the invocation
  counter of the world goes from 3 to 4).
\<close>

theorem half_open_admits_second_call:
  "execute_admit 1010 tripped_breaker = Inr trial_breaker \<and>
   state trial_breaker = HALF_OPEN \<and>
   execute_admit 1010 trial_breaker = Inr trial_breaker \<and>
   execute fst succeeding_op trial_breaker (1010, 3) = (Inr (), onSuccess trial_breaker, (1015, 4))"
proof -
  have t: "tripped_breaker =
      \<lparr>failureThreshold = 2, resetTimeout = 1000, state = OPEN, failures = 2, nextAttempt = 1010\<rparr>"
    by (simp add: tripped_breaker_def example_breaker_def CircuitBreaker_new_def failing_op_def
        breaker_defs)
  have a: "execute_admit 1010 tripped_breaker = Inr (tripped_breaker\<lparr>state := HALF_OPEN\<rparr>)"
    by (simp add: t execute_admit_def)
  then have b: "trial_breaker = tripped_breaker\<lparr>state := HALF_OPEN\<rparr>"
    by (simp add: trial_breaker_def)
  show ?thesis
    using a by (simp add: b breaker_defs succeeding_op_def)
qed

text \<open>
  Claim C3, amended to what the code does. A call that arrives while the state is
  HALF_OPEN is let through, whatever the clock says: the gate returns the breaker unchanged,
  the operation is invoked, and the call settles as the operation does. The gate rejects a
  call in one case only: the state is OPEN and the clock is before \<open>nextAttempt\<close>.
\<close>

theorem half_open_call_is_let_through:
  assumes "state cb = HALF_OPEN"
  shows "execute_admit now cb = Inr cb \<and>
     fst (execute Date_now operation cb w) = fst (operation w) \<and>
     snd (snd (execute Date_now operation cb w)) = snd (operation w) \<and>
     ((\<exists>e. execute_admit now' cb' = Inl e) \<longleftrightarrow> state cb' = OPEN \<and> now' < nextAttempt cb')"
  using assms by (auto simp: breaker_defs split: prod.splits sum.splits)

theorem half_open_call_is_let_through_witness:
  "state trial_breaker = HALF_OPEN \<and>
   execute_admit 0 trial_breaker = Inr trial_breaker \<and>
   snd (snd (execute fst succeeding_op trial_breaker (1010, 3))) = (1015, 4)"
proof -
  have t: "tripped_breaker =
      \<lparr>failureThreshold = 2, resetTimeout = 1000, state = OPEN, failures = 2, nextAttempt = 1010\<rparr>"
    by (simp add: tripped_breaker_def example_breaker_def CircuitBreaker_new_def failing_op_def
        breaker_defs)
  have h: "state trial_breaker = HALF_OPEN"
    by (simp add: trial_breaker_def t execute_admit_def)
  from half_open_call_is_let_through[OF h, of 0 fst succeeding_op "(1010, 3)"] h
  show ?thesis by (simp add: succeeding_op_def)
qed

section \<open>Properties of LoadBalancer\<close>

lemma getEndpoint_round_robin:
  assumes "strategy lb = ''round-robin''" "healthyEndpoints lb \<noteq> []"
  shows "getEndpoint rand lb =
     (Inr (Some (healthyEndpoints lb ! (currentIndex lb mod length (healthyEndpoints lb)))),
      lb\<lparr>currentIndex := currentIndex lb + 1\<rparr>)"
  using assms by (cases "healthyEndpoints lb") (simp_all add: getEndpoint_def roundRobin_def js_index_def)

lemma getEndpoint_times_round_robin:
  assumes "strategy lb = ''round-robin''" "healthyEndpoints lb \<noteq> []"
  shows "getEndpoint_times rands n lb =
     (map (\<lambda>i. Inr (Some (healthyEndpoints lb ! ((currentIndex lb + i) mod length (healthyEndpoints lb))))) [0..<n],
      lb\<lparr>currentIndex := currentIndex lb + n\<rparr>)"
proof (induction n)
  case 0
  show ?case by simp
next
  case (Suc n)
  let ?lb1 = "lb\<lparr>currentIndex := currentIndex lb + n\<rparr>"
  have "strategy ?lb1 = ''round-robin''" "healthyEndpoints ?lb1 \<noteq> []"
    using assms by simp_all
  from getEndpoint_round_robin[OF this, of "rands n"] Suc.IH show ?case
    by simp
qed

lemma getEndpoint_fails_iff:
  "(\<exists>e. fst (getEndpoint rand lb) = Inl e) \<longleftrightarrow> healthyEndpoints lb = []"
  by (cases "healthyEndpoints lb") (auto simp: getEndpoint_def roundRobin_def Let_def split: prod.splits)

lemma Set_from3: "distinct [A, B, C] \<Longrightarrow> Set_from [A, B, C] = [A, B, C]"
  by (auto simp: Set_from_def Set_add_def)

text \<open>
  Claim C5. A round-robin balancer over three distinct endpoints \<open>A, B, C\<close>, all healthy
  at the start, answers its \<open>i\<close>-th call (from 0) with the endpoint at position
  \<open>i mod 3\<close>: \<open>A, B, C, A, B, C, \<dots>\<close>. After \<open>k\<close> such calls and
  \<open>markUnhealthy B\<close>, the next calls are answered from \<open>[A, C]\<close> at position
  \<open>(k + i) mod 2\<close>: only \<open>A\<close> and \<open>C\<close>, in alternation (which of the two comes
  first depends on the parity of the cursor \<open>k\<close>). \<open>getEndpoint\<close> changes nothing but
  the cursor, so this lasts until a health check puts \<open>B\<close> back; from then on the calls
  go round \<open>A, C, B\<close>, the order in which the set now holds them. For every balancer and
  strategy, \<open>getEndpoint\<close> throws exactly when the healthy set is empty, and what it
  throws then is the no-healthy-endpoints error.
\<close>

theorem round_robin_cycles_over_healthy_endpoints:
  assumes "distinct [A, B, C]"
  shows "fst (getEndpoint_times rands n (LoadBalancer_new [A, B, C] (Some ''round-robin'')))
           = map (\<lambda>i. Inr (Some ([A, B, C] ! (i mod 3)))) [0..<n] \<and>
         fst (getEndpoint_times rands' m
                (markUnhealthy B (snd (getEndpoint_times rands k
                   (LoadBalancer_new [A, B, C] (Some ''round-robin''))))))
           = map (\<lambda>i. Inr (Some ([A, C] ! ((k + i) mod 2)))) [0..<m] \<and>
         healthyEndpoints (snd (getEndpoint_times rands' m
                (markUnhealthy B (snd (getEndpoint_times rands k
                   (LoadBalancer_new [A, B, C] (Some ''round-robin'')))))))
           = [A, C] \<and>
         fst (getEndpoint_times rands'' p
                (checkHealth B None t (snd (getEndpoint_times rands' m
                   (markUnhealthy B (snd (getEndpoint_times rands k
                      (LoadBalancer_new [A, B, C] (Some ''round-robin''))))))))) 
           = map (\<lambda>i. Inr (Some ([A, C, B] ! ((k + m + i) mod 3)))) [0..<p] \<and>
         ((\<exists>e. fst (getEndpoint rand lb) = Inl e) \<longleftrightarrow> healthyEndpoints lb = []) \<and>
         (healthyEndpoints lb = [] \<longrightarrow>
            getEndpoint rand lb = (Inl (JsError None ''No healthy endpoints available''), lb))"
proof -
  let ?lb0 = "LoadBalancer_new [A, B, C] (Some ''round-robin'')"
  have s: "strategy ?lb0 = ''round-robin''" and h: "healthyEndpoints ?lb0 = [A, B, C]"
    and c: "currentIndex ?lb0 = 0"
    using assms(1) by (simp_all add: LoadBalancer_new_def Set_from3)
  have p1: "fst (getEndpoint_times rands n ?lb0) = map (\<lambda>i. Inr (Some ([A, B, C] ! (i mod 3)))) [0..<n]"
    using getEndpoint_times_round_robin[of ?lb0 rands n] s h c by simp
  let ?lb1 = "markUnhealthy B (snd (getEndpoint_times rands k ?lb0))"
  have "snd (getEndpoint_times rands k ?lb0) = ?lb0\<lparr>currentIndex := k\<rparr>"
    using getEndpoint_times_round_robin[of ?lb0 rands k] s h c by simp
  then have s1: "strategy ?lb1 = ''round-robin''" and h1: "healthyEndpoints ?lb1 = [A, C]"
    and c1: "currentIndex ?lb1 = k"
    using assms(1) s h by (auto simp: markUnhealthy_def Set_delete_def)
  have p2: "fst (getEndpoint_times rands' m ?lb1) = map (\<lambda>i. Inr (Some ([A, C] ! ((k + i) mod 2)))) [0..<m]"
    using getEndpoint_times_round_robin[of ?lb1 rands' m] s1 h1 c1 by (simp add: numeral_2_eq_2)
  have e2: "snd (getEndpoint_times rands' m ?lb1) = ?lb1\<lparr>currentIndex := k + m\<rparr>"
    using getEndpoint_times_round_robin[of ?lb1 rands' m] s1 h1 c1 by simp
  have p3: "healthyEndpoints (snd (getEndpoint_times rands' m ?lb1)) = [A, C]"
    using e2 h1 by simp
  let ?lb2 = "checkHealth B None t (snd (getEndpoint_times rands' m ?lb1))"
  have s2: "strategy ?lb2 = ''round-robin''" and h2: "healthyEndpoints ?lb2 = [A, C, B]"
    and c2: "currentIndex ?lb2 = k + m"
    using assms(1) s1 h1 unfolding e2 by (auto simp: checkHealth_def Set_add_def)
  have p4: "fst (getEndpoint_times rands'' p ?lb2)
      = map (\<lambda>i. Inr (Some ([A, C, B] ! ((k + m + i) mod 3)))) [0..<p]"
    using getEndpoint_times_round_robin[of ?lb2 rands'' p] s2 h2 c2 by simp
  have p5: "(\<exists>e. fst (getEndpoint rand lb) = Inl e) \<longleftrightarrow> healthyEndpoints lb = []"
    by (rule getEndpoint_fails_iff)
  have p6: "healthyEndpoints lb = [] \<longrightarrow>
            getEndpoint rand lb = (Inl (JsError None ''No healthy endpoints available''), lb)"
    by (simp add: getEndpoint_def)
  show ?thesis
    by (intro conjI p1 p2 p3 p4 p5 p6)
qed

theorem round_robin_cycles_over_healthy_endpoints_witness:
  "distinct [''a:1'', ''b:2'', ''c:3''] \<and>
   fst (getEndpoint_times (\<lambda>k i. 0) 4 (LoadBalancer_new [''a:1'', ''b:2'', ''c:3''] (Some ''round-robin'')))
     = [Inr (Some ''a:1''), Inr (Some ''b:2''), Inr (Some ''c:3''), Inr (Some ''a:1'')] \<and>
   fst (getEndpoint_times (\<lambda>k i. 0) 3
          (markUnhealthy ''b:2'' (snd (getEndpoint_times (\<lambda>k i. 0) 1
             (LoadBalancer_new [''a:1'', ''b:2'', ''c:3''] (Some ''round-robin''))))))
     = [Inr (Some ''c:3''), Inr (Some ''a:1''), Inr (Some ''c:3'')]"
proof -
  have d: "distinct [''a:1'', ''b:2'', ''c:3'']" by simp
  have u4: "[0..<4] = [0, 1, 2, 3]" and u3: "[0..<3] = [0, 1, 2]"
    by (simp_all add: upt_rec)
  from round_robin_cycles_over_healthy_endpoints[OF d, of "\<lambda>k i. 0" 4 "\<lambda>k i. 0" 3 1] d
  show ?thesis
    by (simp add: u4 u3)
qed


section \<open>Properties of broadcastToRoom\<close>

lemma deliver_fields [simp]:
  "rooms (deliver m ex st u) = rooms st"
  "userRooms (deliver m ex st u) = userRooms st"
  "messageHistory (deliver m ex st u) = messageHistory st"
  "userPresence (deliver m ex st u) = userPresence st"
  by (simp_all add: deliver_def split: option.splits)

lemma deliver_flags [simp]:
  "destroyed (calls (deliver m ex st u) c) = destroyed (calls st c)"
  "write_throws (calls (deliver m ex st u) c) = write_throws (calls st c)"
  "userId (calls (deliver m ex st u) c) = userId (calls st c)"
  "currentRooms (calls (deliver m ex st u) c) = currentRooms (calls st c)"
  "metadata_user_id (calls (deliver m ex st u) c) = metadata_user_id (calls st c)"
  by (simp_all add: deliver_def split: option.splits)

lemma deliver_written:
  "written (calls (deliver m ex st u) c) =
     written (calls st c) @ (if receives st ex c u then [m] else [])"
  by (auto simp: deliver_def receives_def split: option.splits)

lemma deliver_receives [simp]:
  "receives (deliver m ex st u) ex c = receives st ex c"
  by (rule ext) (auto simp: deliver_def receives_def split: option.splits)

lemma foldl_deliver_fields [simp]:
  "rooms (foldl (deliver m ex) st us) = rooms st"
  "userRooms (foldl (deliver m ex) st us) = userRooms st"
  "messageHistory (foldl (deliver m ex) st us) = messageHistory st"
  "userPresence (foldl (deliver m ex) st us) = userPresence st"
  by (induction us arbitrary: st; simp)+

lemma foldl_deliver_flags [simp]:
  "destroyed (calls (foldl (deliver m ex) st us) c) = destroyed (calls st c)"
  "write_throws (calls (foldl (deliver m ex) st us) c) = write_throws (calls st c)"
  "userId (calls (foldl (deliver m ex) st us) c) = userId (calls st c)"
  "currentRooms (calls (foldl (deliver m ex) st us) c) = currentRooms (calls st c)"
  "metadata_user_id (calls (foldl (deliver m ex) st us) c) = metadata_user_id (calls st c)"
  by (induction us arbitrary: st; simp)+

text \<open>
  What a broadcast writes: each stream gets the message once for every listed member that
  receives on it, and nothing else is written.
\<close>

lemma foldl_deliver_written:
  "written (calls (foldl (deliver m ex) st us) c) =
     written (calls st c) @ replicate (length (filter (receives st ex c) us)) m"
proof (induction us arbitrary: st)
  case Nil
  show ?case by simp
next
  case (Cons u us)
  show ?case
    using Cons.IH[of "deliver m ex st u"] by (simp add: deliver_written)
qed

lemma broadcast_fields [simp]:
  "rooms (broadcastToRoom r m ex st) = rooms st"
  "userRooms (broadcastToRoom r m ex st) = userRooms st"
  "messageHistory (broadcastToRoom r m ex st) = messageHistory st"
  "userPresence (broadcastToRoom r m ex st) = userPresence st"
  by (simp_all add: broadcastToRoom_def)

lemma broadcast_flags [simp]:
  "destroyed (calls (broadcastToRoom r m ex st) c) = destroyed (calls st c)"
  "write_throws (calls (broadcastToRoom r m ex st) c) = write_throws (calls st c)"
  "userId (calls (broadcastToRoom r m ex st) c) = userId (calls st c)"
  "currentRooms (calls (broadcastToRoom r m ex st) c) = currentRooms (calls st c)"
  "metadata_user_id (calls (broadcastToRoom r m ex st) c) = metadata_user_id (calls st c)"
  by (simp_all add: broadcastToRoom_def)

lemma broadcast_written:
  "written (calls (broadcastToRoom r m ex st) c) =
     written (calls st c) @ replicate (length (filter (receives st ex c) (members st r))) m"
  by (simp add: broadcastToRoom_def members_def foldl_deliver_written)

section \<open>Properties of getHistory\<close>

lemma js_slice0_take: "js_slice0 xs e = take (if e < 0 then nat (int (length xs) + e) else nat e) xs"
  by (simp add: js_slice0_def)

lemma js_sort_desc_sorted: "sorted_wrt (\<lambda>x y. timestamp y \<le> timestamp x) (js_sort_desc ms)"
proof -
  have "sorted (map (\<lambda>m. - timestamp m) (js_sort_desc ms))"
    unfolding js_sort_desc_def by (rule sorted_sort_key)
  then show ?thesis by (simp add: sorted_wrt_map)
qed

lemma js_sort_desc_mset [simp]: "mset (js_sort_desc ms) = mset ms"
  by (simp add: js_sort_desc_def)

lemma js_sort_desc_length [simp]: "length (js_sort_desc ms) = length ms"
  by (simp add: js_sort_desc_def)

lemma js_sort_desc_set [simp]: "set (js_sort_desc ms) = set ms"
  by (simp add: js_sort_desc_def)

lemma take_newest:
  assumes "sorted_wrt (\<lambda>x y. timestamp y \<le> timestamp x) ys"
  shows "sorted (map timestamp (rev (take n ys)))"
    and "\<forall>old \<in> set (drop n ys). \<forall>new \<in> set (take n ys). timestamp old \<le> timestamp new"
proof -
  have "sorted_wrt (\<lambda>x y. timestamp y \<le> timestamp x) (take n ys @ drop n ys)"
    using assms by simp
  then have s: "sorted_wrt (\<lambda>x y. timestamp y \<le> timestamp x) (take n ys)"
    and d: "\<forall>x \<in> set (take n ys). \<forall>y \<in> set (drop n ys). timestamp y \<le> timestamp x"
    unfolding sorted_wrt_append by blast+
  show "sorted (map timestamp (rev (take n ys)))"
    using s by (simp add: sorted_wrt_map sorted_wrt_rev)
  show "\<forall>old \<in> set (drop n ys). \<forall>new \<in> set (take n ys). timestamp old \<le> timestamp new"
    using d by blast
qed

lemma mset_minus_take: "mset xs - mset (take n xs) = mset (drop n xs)"
proof -
  have "mset xs = mset (take n xs) + mset (drop n xs)"
    by (metis append_take_drop_id mset_append)
  then show ?thesis by simp
qed

lemma getHistory_response:
  "fst (getHistory roomId limit_arg before_timestamp st) =
     (let limit = (case limit_arg of None \<Rightarrow> 50 | Some l \<Rightarrow> l);
          stored = (case messageHistory st roomId of None \<Rightarrow> [] | Some h \<Rightarrow> h);
          considered = (case before_timestamp of
                          None \<Rightarrow> stored
                        | Some b \<Rightarrow> if b \<noteq> 0 then filter (\<lambda>msg. timestamp msg < b) stored else stored);
          sliced = js_slice0 (js_sort_desc considered) limit
      in \<lparr> messages = rev sliced, has_more = (int (length sliced) = limit) \<rparr>)"
  by (simp add: getHistory_def Let_def)

text \<open>
  Claim C6, as stated, fails in two places. A \<open>before_timestamp\<close> that is given as 0 is
  taken as not given: no message has a timestamp below 0, yet all three are returned. And a
  negative \<open>limit\<close> is an offset from the end for \<open>slice\<close>: with \<open>limit = -1\<close>
  all messages but the oldest are returned.
\<close>

theorem getHistory_zero_timestamp_not_filtered:
  "map timestamp (messages (fst (getHistory ''general'' (Some 10) (Some 0) (run three_texts)))) = [5, 7, 9] \<and>
   map timestamp (messages (fst (getHistory ''general'' (Some (- 1)) None (run three_texts)))) = [7, 9]"
  by code_simp

text \<open>
  Claim C6, amended to what the code does. The messages considered are the stored history
  of the room, filtered to timestamps strictly below \<open>before_timestamp\<close> when that is
  given and not 0, and unfiltered otherwise. They are sorted by descending timestamp (a
  stable sort) and \<open>slice(0, limit)\<close> is applied: the first \<open>limit\<close> of them for
  \<open>limit \<ge> 0\<close>, all but the last \<open>-limit\<close> for a negative \<open>limit\<close>; the result
  is returned reversed. Hence the result is in ascending order of timestamp, its messages
  are among those considered, and no message left out is newer than one returned.
  \<open>has_more\<close> is (number returned = \<open>limit\<close>).
\<close>

theorem getHistory_filters_sorts_and_pages:
  assumes "stored = (case messageHistory st roomId of None \<Rightarrow> [] | Some h \<Rightarrow> h)"
    and "considered = (case before_timestamp of
                         None \<Rightarrow> stored
                       | Some b \<Rightarrow> if b \<noteq> 0 then filter (\<lambda>msg. timestamp msg < b) stored else stored)"
    and "limit = (case limit_arg of None \<Rightarrow> 50 | Some l \<Rightarrow> l)"
    and "response = fst (getHistory roomId limit_arg before_timestamp st)"
  shows "messages response = rev (js_slice0 (js_sort_desc considered) limit) \<and>
     sorted (map timestamp (messages response)) \<and>
     mset (messages response) \<subseteq># mset considered \<and>
     length (messages response) =
       (if limit < 0 then length considered - nat (- limit) else min (nat limit) (length considered)) \<and>
     (\<forall>old \<in># mset considered - mset (messages response).
        \<forall>new \<in> set (messages response). timestamp old \<le> timestamp new) \<and>
     has_more response = (int (length (messages response)) = limit)"
proof -
  define ys where "ys = js_sort_desc considered"
  define n where "n = (if limit < 0 then nat (int (length ys) + limit) else nat limit)"
  have "response = \<lparr> messages = rev (take n ys), has_more = (int (length (take n ys)) = limit) \<rparr>"
    unfolding assms(4) getHistory_response Let_def js_slice0_take n_def ys_def assms(3) assms(2) assms(1)
    by (rule refl)
  then have r: "messages response = rev (take n ys)"
    and h: "has_more response = (int (length (take n ys)) = limit)"
    by simp_all
  have s: "sorted_wrt (\<lambda>x y. timestamp y \<le> timestamp x) ys"
    unfolding ys_def by (rule js_sort_desc_sorted)
  have p1: "messages response = rev (js_slice0 (js_sort_desc considered) limit)"
    unfolding r js_slice0_take n_def ys_def by (rule refl)
  have p2: "sorted (map timestamp (messages response))"
    unfolding r by (rule take_newest(1)[OF s])
  have m: "mset considered - mset (messages response) = mset (drop n ys)"
    using mset_minus_take[of ys n] by (simp add: r ys_def)
  have "mset (take n ys) \<subseteq># mset (take n ys) + mset (drop n ys)"
    by simp
  then have p3: "mset (messages response) \<subseteq># mset considered"
    by (metis r mset_rev mset_append append_take_drop_id js_sort_desc_mset ys_def)
  have p4: "length (messages response) =
       (if limit < 0 then length considered - nat (- limit) else min (nat limit) (length considered))"
    unfolding r by (auto simp: n_def ys_def)
  have p5: "\<forall>old \<in># mset considered - mset (messages response).
        \<forall>new \<in> set (messages response). timestamp old \<le> timestamp new"
    unfolding m using take_newest(2)[OF s, of n] by (simp add: r)
  have p6: "has_more response = (int (length (messages response)) = limit)"
    using h by (simp add: r)
  show ?thesis
    by (intro conjI p1 p2 p3 p4 p5 p6)
qed

theorem getHistory_filters_sorts_and_pages_witness:
  "map timestamp (messages (fst (getHistory ''general'' (Some 2) (Some 9) (run three_texts)))) = [5, 7] \<and>
   has_more (fst (getHistory ''general'' (Some 2) (Some 9) (run three_texts))) \<and>
   sorted (map timestamp (messages (fst (getHistory ''general'' (Some 2) (Some 9) (run three_texts)))))"
proof -
  have e: "map timestamp (messages (fst (getHistory ''general'' (Some 2) (Some 9) (run three_texts)))) = [5, 7]"
    "has_more (fst (getHistory ''general'' (Some 2) (Some 9) (run three_texts)))"
    by code_simp+
  from getHistory_filters_sorts_and_pages[where st = "run three_texts" and roomId = "''general''"
      and before_timestamp = "Some 9" and limit_arg = "Some 2", OF refl refl refl refl]
  have "sorted (map timestamp (messages (fst (getHistory ''general'' (Some 2) (Some 9) (run three_texts)))))"
    by (elim conjE)
  with e show ?thesis by (intro conjI)
qed

text \<open>
  Claim C10. With \<open>limit\<close> given as 0 the answer has no messages and \<open>has_more\<close> is
  true, whatever the history of the room. With \<open>limit\<close> absent the answer is that for
  \<open>limit = 50\<close>; the default is not used for 0.
\<close>

theorem getHistory_limit_zero:
  "messages (fst (getHistory roomId (Some 0) before_timestamp st)) = [] \<and>
   has_more (fst (getHistory roomId (Some 0) before_timestamp st)) \<and>
   fst (getHistory roomId None before_timestamp st) = fst (getHistory roomId (Some 50) before_timestamp st)"
  by (simp add: getHistory_response Let_def js_slice0_def)

theorem getHistory_limit_zero_witness:
  "messageHistory (run three_texts) ''general'' \<noteq> None \<and>
   messages (fst (getHistory ''general'' (Some 0) None (run three_texts))) = [] \<and>
   has_more (fst (getHistory ''general'' (Some 0) None (run three_texts))) \<and>
   length (messages (fst (getHistory ''general'' None None (run three_texts)))) = 3"
proof -
  have a: "messageHistory (run three_texts) ''general'' \<noteq> None"
    and b: "length (messages (fst (getHistory ''general'' None None (run three_texts)))) = 3"
    by code_simp+
  from getHistory_limit_zero[of "''general''" None "run three_texts"] a b
  show ?thesis by simp
qed


section \<open>What each handler leaves unchanged\<close>

lemma fold_broadcast_fields [simp]:
  "rooms (foldl (\<lambda>s roomId. broadcastToRoom roomId (f roomId) ex s) st rs) = rooms st"
  "userRooms (foldl (\<lambda>s roomId. broadcastToRoom roomId (f roomId) ex s) st rs) = userRooms st"
  "messageHistory (foldl (\<lambda>s roomId. broadcastToRoom roomId (f roomId) ex s) st rs) = messageHistory st"
  "userPresence (foldl (\<lambda>s roomId. broadcastToRoom roomId (f roomId) ex s) st rs) = userPresence st"
  by (induction rs arbitrary: st; simp)+

lemma joinRoom_rooms:
  "rooms (snd (joinRoom r u name uuid now st)) = (rooms st)(r \<mapsto> Set_add (members st r) u)"
  by (simp add: joinRoom_def Let_def members_def)

lemma joinRoom_history [simp]:
  "messageHistory (snd (joinRoom r u name uuid now st)) = messageHistory st"
  by (simp add: joinRoom_def Let_def)

lemma leaveRoom_rooms:
  "rooms (leaveRoom r u uuid now st) =
     (case rooms st r of
        None \<Rightarrow> rooms st
      | Some us \<Rightarrow> if Set_delete us u = [] then (rooms st)(r := None) else (rooms st)(r \<mapsto> Set_delete us u))"
  by (simp add: leaveRoom_def Let_def split: option.splits)

lemma leaveRoom_history [simp]:
  "messageHistory (leaveRoom r u uuid now st) = messageHistory st"
  by (simp add: leaveRoom_def Let_def split: option.splits)

lemma updatePresence_fields [simp]:
  "rooms (updatePresence u stat uuids nows st) = rooms st"
  "messageHistory (updatePresence u stat uuids nows st) = messageHistory st"
  by (simp_all add: updatePresence_def)

lemma handleUserDisconnect_fields [simp]:
  "rooms (handleUserDisconnect uuids nows uo rs st) = rooms st"
  "messageHistory (handleUserDisconnect uuids nows uo rs st) = messageHistory st"
  by (simp_all add: handleUserDisconnect_def split: option.splits)

lemma on_close_fields [simp]:
  "rooms (on_close c uuids nows st) = rooms st"
  "messageHistory (on_close c uuids nows st) = messageHistory st"
  by (simp_all add: on_close_def)

lemma chatStream_fields [simp]:
  "rooms (chatStream c md st) = rooms st"
  "messageHistory (chatStream c md st) = messageHistory st"
  by (simp_all add: chatStream_def)

lemma destroy_fields [simp]:
  "rooms (destroy c st) = rooms st"
  "messageHistory (destroy c st) = messageHistory st"
  by (simp_all add: destroy_def)

lemma bind_user_fields:
  assumes "bind_user c m st = Some st1"
  shows "rooms st1 = rooms st" "messageHistory st1 = messageHistory st"
  using assms by (auto simp: bind_user_def Let_def split: if_splits option.splits)

lemma push_history_fields [simp]:
  "rooms (push_history r m st) = rooms st"
  "messageHistory (push_history r m st) r' =
     (if r' = r then Some ((case messageHistory st r of None \<Rightarrow> [] | Some h \<Rightarrow> h) @ [m])
      else messageHistory st r')"
  by (simp_all add: push_history_def)

lemma handleTypingIndicator_fields [simp]:
  "rooms (handleTypingIndicator m rs st) = rooms st"
  "messageHistory (handleTypingIndicator m rs st) = messageHistory st"
  by (simp_all add: handleTypingIndicator_def Let_def)

lemma handleSystemMessage_rooms [simp]:
  "rooms (handleSystemMessage m rs uuid now st) = rooms st"
  by (simp add: handleSystemMessage_def Let_def)

lemma handleChatMessage_rooms:
  "handleChatMessage m rs uuid now st = Inr st2 \<Longrightarrow> rooms st2 = rooms st"
  by (auto simp: handleChatMessage_def Let_def split: if_splits)

lemma on_data_rooms [simp]: "rooms (on_data c m uuid now st) = rooms st"
  by (auto simp: on_data_def Let_def bind_user_fields handleChatMessage_rooms
      split: option.splits sum.splits)

lemma getHistory_rooms [simp]: "rooms (snd (getHistory r l b st)) = rooms st"
  by (simp add: getHistory_def Let_def)

lemma step_rooms:
  "rooms (step st e) =
     (case e of
        JoinRoom r u name uuid now \<Rightarrow> rooms (snd (joinRoom r u name uuid now st))
      | LeaveRoom r u uuid now \<Rightarrow> rooms (leaveRoom r u uuid now st)
      | _ \<Rightarrow> rooms st)"
  by (cases e) simp_all

subsection \<open>Stored member sets stay proper sets\<close>

lemma Set_add_distinct: "distinct s \<Longrightarrow> distinct (Set_add s x)"
  by (simp add: Set_add_def)

lemma Set_add_set [simp]: "set (Set_add s x) = insert x (set s)"
  by (auto simp: Set_add_def)

lemma Set_add_nonempty [simp]: "Set_add s x \<noteq> []"
  by (auto simp: Set_add_def)

lemma Set_delete_distinct: "distinct s \<Longrightarrow> distinct (Set_delete s x)"
  by (simp add: Set_delete_def distinct_removeAll)

lemma Set_delete_set [simp]: "set (Set_delete s x) = set s - {x}"
  by (simp add: Set_delete_def)

lemma Set_delete_absent: "x \<notin> set s \<Longrightarrow> Set_delete s x = s"
  by (simp add: Set_delete_def)

lemma members_distinct: "rooms_ok st \<Longrightarrow> distinct (members st r)"
  by (auto simp: rooms_ok_def members_def split: option.splits)

lemma rooms_ok_join: "rooms_ok st \<Longrightarrow> rooms_ok (snd (joinRoom r u name uuid now st))"
  unfolding rooms_ok_def joinRoom_rooms
  by (auto simp: members_def Set_add_distinct split: option.splits if_splits)

lemma rooms_ok_leave: "rooms_ok st \<Longrightarrow> rooms_ok (leaveRoom r u uuid now st)"
  unfolding rooms_ok_def leaveRoom_rooms
  by (auto simp: Set_delete_distinct split: option.splits if_splits)

lemma rooms_ok_step: "rooms_ok st \<Longrightarrow> rooms_ok (step st e)"
proof (cases e)
  case (JoinRoom r u name uuid now)
  assume "rooms_ok st"
  then show ?thesis using JoinRoom by (simp add: rooms_ok_join)
next
  case (LeaveRoom r u uuid now)
  assume "rooms_ok st"
  then show ?thesis using LeaveRoom by (simp add: rooms_ok_leave)
qed (simp_all add: rooms_ok_def)

lemma rooms_ok_foldl: "rooms_ok st \<Longrightarrow> rooms_ok (foldl step st evs)"
  by (induction evs arbitrary: st) (simp_all add: rooms_ok_step)

lemma rooms_ok_run: "rooms_ok (run evs)"
  unfolding run_def by (rule rooms_ok_foldl) (simp add: rooms_ok_def ChatService_new_def)


section \<open>Properties of joinRoom and leaveRoom\<close>

lemma getHistory_response_cong:
  "messageHistory st1 roomId = messageHistory st2 roomId \<Longrightarrow>
   fst (getHistory roomId l b st1) = fst (getHistory roomId l b st2)"
  by (simp add: getHistory_response)

text \<open>
  Claim C1, as stated, fails: \<open>leaveRoom\<close> removes the room from \<open>rooms\<close> and never
  touches \<open>messageHistory\<close>. After the only member has left, the room is gone from the
  registry and \<open>getHistory\<close> still returns its three messages.
\<close>

theorem history_survives_empty_room:
  "rooms (run three_texts) ''general'' = Some [''ana''] \<and>
   rooms (run texts_then_leave) ''general'' = None \<and>
   map content (messages (fst (getHistory ''general'' None None (run texts_then_leave))))
     = [''one'', ''two'', ''three'']"
  by code_simp

text \<open>
  Claim C1, amended to what the code does. If a \<open>leaveRoom\<close> call empties the member set
  of a room, the room is removed from the registry; every message history, that of the
  room included, stays as it was, and \<open>getHistory\<close> answers for that room as it would
  have before the call.
\<close>

theorem leaveRoom_deletes_room_keeps_history:
  assumes "rooms st roomId = Some us" and "Set_delete us uid = []"
  shows "rooms (leaveRoom roomId uid uuid now st) roomId = None \<and>
     messageHistory (leaveRoom roomId uid uuid now st) = messageHistory st \<and>
     fst (getHistory roomId limit_arg before_timestamp (leaveRoom roomId uid uuid now st))
       = fst (getHistory roomId limit_arg before_timestamp st)"
proof -
  have a: "rooms (leaveRoom roomId uid uuid now st) roomId = None"
    using assms by (simp add: leaveRoom_rooms)
  have b: "messageHistory (leaveRoom roomId uid uuid now st) = messageHistory st"
    by simp
  have c: "fst (getHistory roomId limit_arg before_timestamp (leaveRoom roomId uid uuid now st))
       = fst (getHistory roomId limit_arg before_timestamp st)"
    by (rule getHistory_response_cong) simp
  show ?thesis by (intro conjI a b c)
qed

theorem leaveRoom_deletes_room_keeps_history_witness:
  "rooms (run three_texts) ''general'' = Some [''ana''] \<and>
   Set_delete [''ana''] ''ana'' = [] \<and>
   rooms (leaveRoom ''general'' ''ana'' ''id-5'' 11 (run three_texts)) ''general'' = None \<and>
   length (messages (fst (getHistory ''general'' None None
      (leaveRoom ''general'' ''ana'' ''id-5'' 11 (run three_texts))))) = 3"
proof -
  have h1: "rooms (run three_texts) ''general'' = Some [''ana'']"
    by code_simp
  have h2: "Set_delete [''ana''] ''ana'' = []"
    by (simp add: Set_delete_def)
  have h3: "length (messages (fst (getHistory ''general'' None None (run three_texts)))) = 3"
    by code_simp
  note t = leaveRoom_deletes_room_keeps_history[OF h1 h2, of "''id-5''" 11 None None]
  from t have a: "rooms (leaveRoom ''general'' ''ana'' ''id-5'' 11 (run three_texts)) ''general'' = None"
    by (elim conjE)
  from t have "fst (getHistory ''general'' None None (leaveRoom ''general'' ''ana'' ''id-5'' 11 (run three_texts)))
       = fst (getHistory ''general'' None None (run three_texts))"
    by (elim conjE)
  with h3 have b: "length (messages (fst (getHistory ''general'' None None
      (leaveRoom ''general'' ''ana'' ''id-5'' 11 (run three_texts))))) = 3"
    by (simp only:)
  show ?thesis
    by (intro conjI h1 h2 a b)
qed

lemma members_join:
  "members (snd (joinRoom r u name uuid now st)) r' =
     (if r' = r then Set_add (members st r) u else members st r')"
  by (simp add: members_def joinRoom_rooms)

lemma members_leave_set:
  "set (members (leaveRoom r u uuid now st) r') =
     (if r' = r then set (members st r) - {u} else set (members st r'))"
proof (cases "rooms st r")
  case None
  then show ?thesis by (simp add: members_def leaveRoom_rooms)
next
  case (Some us)
  have d: "set (Set_delete us u) = set us - {u}" by simp
  show ?thesis
  proof (cases "Set_delete us u = []")
    case True
    with d have "set us - {u} = {}" by simp
    with True Some show ?thesis by (simp add: members_def leaveRoom_rooms)
  next
    case False
    with Some show ?thesis by (auto simp: members_def leaveRoom_rooms)
  qed
qed

lemma rooms_leave_other:
  "r' \<noteq> r \<Longrightarrow> rooms (leaveRoom r u uuid now st) r' = rooms st r'"
  by (simp add: leaveRoom_rooms split: option.splits)

lemma after_calls_snoc:
  "after_calls st r u (cs @ [c]) = step (after_calls st r u cs) (membership_event r u c)"
  by (simp add: after_calls_def)

lemma after_calls_rooms_ok: "rooms_ok st \<Longrightarrow> rooms_ok (after_calls st r u cs)"
  unfolding after_calls_def by (rule rooms_ok_foldl)

lemma after_calls_other:
  "r' \<noteq> r \<Longrightarrow> rooms (after_calls st r u cs) r' = rooms st r'"
proof (induction cs rule: rev_induct)
  case Nil
  show ?case by (simp add: after_calls_def)
next
  case (snoc c cs)
  then show ?case
    by (cases c) (simp_all add: after_calls_snoc joinRoom_rooms rooms_leave_other)
qed

lemma after_calls_members:
  "set (members (after_calls st r u cs) r) =
     (if cs = [] then set (members st r)
      else if is_join (last cs) then insert u (set (members st r))
      else set (members st r) - {u})"
proof (induction cs rule: rev_induct)
  case Nil
  show ?case by (simp add: after_calls_def)
next
  case (snoc c cs)
  show ?case
  proof (cases c)
    case (Join name uuid now)
    then show ?thesis
      using snoc.IH by (auto simp: after_calls_snoc members_join split: if_splits)
  next
    case (Leave uuid now)
    then show ?thesis
      using snoc.IH by (auto simp: after_calls_snoc members_leave_set split: if_splits)
  qed
qed

lemma leaveRoom_absent:
  assumes "rooms_ok st" "u \<notin> set (members st r)"
  shows "rooms (leaveRoom r u uuid now st) = rooms st"
proof (cases "rooms st r")
  case None
  then show ?thesis by (simp add: leaveRoom_rooms)
next
  case (Some us)
  with assms have "us \<noteq> []" "Set_delete us u = us"
    by (auto simp: rooms_ok_def members_def Set_delete_absent)
  with Some show ?thesis
    by (simp add: leaveRoom_rooms map_upd_triv)
qed

lemma joinRoom_twice:
  "rooms (snd (joinRoom r u n2 i2 t2 (snd (joinRoom r u n1 i1 t1 st))))
     = rooms (snd (joinRoom r u n1 i1 t1 st))"
  by (simp add: joinRoom_rooms members_def Set_add_def)

lemma count_list_distinct: "distinct xs \<Longrightarrow> x \<in> set xs \<Longrightarrow> count_list xs x = 1"
  by (induction xs) auto

text \<open>
  Claim C8. Start from any state the service can reach and make any sequence of
  \<open>joinRoom\<close> and \<open>leaveRoom\<close> calls for one user and one room. The member set of the
  room afterwards is decided by the last call alone: the former set with the user added
  when it was a join, with the user removed when it was a leave. The member list holds no
  member twice, and no other room is affected. In particular a second \<open>joinRoom\<close> leaves
  the registry as the first left it, with the user listed exactly once, and a
  \<open>leaveRoom\<close> for a user who is not a member leaves the registry unchanged.
\<close>

theorem join_leave_net_effect:
  "set (members (after_calls (run evs) r u cs) r) =
     (if cs = [] then set (members (run evs) r)
      else if is_join (last cs) then insert u (set (members (run evs) r))
      else set (members (run evs) r) - {u}) \<and>
   distinct (members (after_calls (run evs) r u cs) r) \<and>
   (\<forall>r'. r' \<noteq> r \<longrightarrow> rooms (after_calls (run evs) r u cs) r' = rooms (run evs) r') \<and>
   rooms (snd (joinRoom r u n2 i2 t2 (snd (joinRoom r u n1 i1 t1 (run evs)))))
     = rooms (snd (joinRoom r u n1 i1 t1 (run evs))) \<and>
   count_list (members (snd (joinRoom r u n2 i2 t2 (snd (joinRoom r u n1 i1 t1 (run evs))))) r) u = 1 \<and>
   (u \<notin> set (members (run evs) r) \<longrightarrow> rooms (leaveRoom r u i t (run evs)) = rooms (run evs))"
proof -
  have ok: "rooms_ok (run evs)" by (rule rooms_ok_run)
  have p1: "set (members (after_calls (run evs) r u cs) r) =
     (if cs = [] then set (members (run evs) r)
      else if is_join (last cs) then insert u (set (members (run evs) r))
      else set (members (run evs) r) - {u})"
    by (rule after_calls_members)
  have p2: "distinct (members (after_calls (run evs) r u cs) r)"
    by (rule members_distinct[OF after_calls_rooms_ok[OF ok]])
  have p3: "\<forall>r'. r' \<noteq> r \<longrightarrow> rooms (after_calls (run evs) r u cs) r' = rooms (run evs) r'"
    by (simp add: after_calls_other)
  have p4: "rooms (snd (joinRoom r u n2 i2 t2 (snd (joinRoom r u n1 i1 t1 (run evs)))))
     = rooms (snd (joinRoom r u n1 i1 t1 (run evs)))"
    by (rule joinRoom_twice)
  have "rooms_ok (snd (joinRoom r u n2 i2 t2 (snd (joinRoom r u n1 i1 t1 (run evs)))))"
    by (intro rooms_ok_join ok)
  then have p5: "count_list (members (snd (joinRoom r u n2 i2 t2 (snd (joinRoom r u n1 i1 t1 (run evs))))) r) u = 1"
    by (intro count_list_distinct members_distinct) (simp_all add: members_join)
  have p6: "u \<notin> set (members (run evs) r) \<longrightarrow> rooms (leaveRoom r u i t (run evs)) = rooms (run evs)"
    using leaveRoom_absent[OF ok] by blast
  show ?thesis
    by (intro conjI p1 p2 p3 p4 p5 p6)
qed

theorem join_leave_net_effect_witness:
  "members (after_calls (run three_texts) ''general'' ''bob''
      [Join ''Bob'' ''a'' 20, Join ''Bob'' ''b'' 21]) ''general'' = [''ana'', ''bob''] \<and>
   set (members (after_calls (run three_texts) ''general'' ''bob''
      [Join ''Bob'' ''a'' 20, Leave ''b'' 21, Leave ''c'' 22]) ''general'') = {''ana''} \<and>
   ''bob'' \<notin> set (members (run three_texts) ''general'') \<and>
   rooms (leaveRoom ''general'' ''bob'' ''d'' 23 (run three_texts)) = rooms (run three_texts)"
proof -
  have a: "members (after_calls (run three_texts) ''general'' ''bob''
      [Join ''Bob'' ''a'' 20, Join ''Bob'' ''b'' 21]) ''general'' = [''ana'', ''bob'']"
    and b: "members (run three_texts) ''general'' = [''ana'']"
    by code_simp+
  note t = join_leave_net_effect[of three_texts "''general''" "''bob''"
      "[Join ''Bob'' ''a'' 20, Leave ''b'' 21, Leave ''c'' 22]" _ _ _ _ _ _ "''d''" 23]
  from t have c: "set (members (after_calls (run three_texts) ''general'' ''bob''
      [Join ''Bob'' ''a'' 20, Leave ''b'' 21, Leave ''c'' 22]) ''general'') = {''ana''}"
    by (simp add: b)
  from t have d: "rooms (leaveRoom ''general'' ''bob'' ''d'' 23 (run three_texts)) = rooms (run three_texts)"
    by (simp add: b)
  from a b c d show ?thesis by simp
qed


section \<open>Properties of the message handlers\<close>

lemma push_history_receives [simp]: "receives (push_history r m st) ex c = receives st ex c"
  by (rule ext) (simp add: receives_def push_history_def)

lemma push_history_members [simp]: "members (push_history r m st) r' = members st r'"
  by (simp add: members_def)

lemma push_history_written [simp]: "written (calls (push_history r m st) c) = written (calls st c)"
  by (simp add: push_history_def)

lemma handleSystemMessage_history:
  "messageHistory (handleSystemMessage m rs uuid now st) (room_id m) =
     Some ((case messageHistory st (room_id m) of None \<Rightarrow> [] | Some h \<Rightarrow> h)
            @ [m\<lparr>msg_id := uuid, timestamp := now\<rparr>])"
  by (simp add: handleSystemMessage_def Let_def)

lemma handleSystemMessage_written:
  "written (calls (handleSystemMessage m rs uuid now st) c) =
     written (calls st c) @
       replicate (length (filter (receives st None c) (members st (room_id m))))
         (m\<lparr>msg_id := uuid, timestamp := now\<rparr>)"
  by (simp add: handleSystemMessage_def Let_def broadcast_written)

lemma joinRoom_written:
  "written (calls (snd (joinRoom r u name uuid now st)) c) =
     written (calls st c) @
       replicate (length (filter (receives st None c) (Set_add (members st r) u)))
         \<lparr> msg_id = uuid, room_id = r, user_id = u, username = Some name,
           content = name @ '' joined the room'', msg_type = ''SYSTEM'',
           timestamp = now, metadata = None \<rparr>"
proof -
  let ?st1 = "st\<lparr> rooms := (rooms st)(r \<mapsto> Set_add (members st r) u),
                    userRooms := (userRooms st)(u \<mapsto>
                      Set_add (case userRooms st u of None \<Rightarrow> [] | Some rs \<Rightarrow> rs) r),
                    userPresence := (userPresence st)(u \<mapsto> ''ONLINE'') \<rparr>"
  have "receives ?st1 None c = receives st None c"
    by (rule ext) (simp add: receives_def)
  moreover have "members ?st1 r = Set_add (members st r) u"
    by (simp add: members_def)
  ultimately show ?thesis
    by (simp add: joinRoom_def Let_def broadcast_written members_def[of st])
qed

lemma on_data_system:
  assumes "msg_type m = ''SYSTEM''" "bind_user c m st = Some st1"
  shows "on_data c m uuid now st = handleSystemMessage m (currentRooms (calls st1 c)) uuid now st1"
  using assms by (simp add: on_data_def Let_def)

lemma on_data_typing:
  assumes "msg_type m = ''TYPING''" "bind_user c m st = Some st1"
  shows "on_data c m uuid now st = handleTypingIndicator m (currentRooms (calls st1 c)) st1"
  using assms by (simp add: on_data_def Let_def)

lemma bind_user_bound:
  assumes "userId (calls st c) = Some u" "u \<noteq> []"
  shows "bind_user c m st = Some st"
  using assms by (simp add: bind_user_def)

subsection \<open>What the notifications write\<close>

lemma foldl_deliver_receives [simp]:
  "receives (foldl (deliver m ex) st us) ex c = receives st ex c"
  by (induction us arbitrary: st) simp_all

lemma broadcast_receives [simp]:
  "receives (broadcastToRoom r m ex st) ex c = receives st ex c"
  by (simp add: broadcastToRoom_def)

lemma broadcast_members [simp]: "members (broadcastToRoom r m ex st) r' = members st r'"
  by (simp add: members_def)

text \<open>
  A run of broadcasts, one per room of a list, all with the same excluded user: each
  stream gets, room by room, the message of the room once for every member of the room
  that receives on it.
\<close>

lemma fold_broadcast_written:
  "written (calls (foldl (\<lambda>s roomId. broadcastToRoom roomId (f roomId) ex s) st rs) c) =
     written (calls st c) @
       concat (map (\<lambda>roomId. replicate (length (filter (receives st ex c) (members st roomId))) (f roomId)) rs)"
proof (induction rs arbitrary: st)
  case Nil
  show ?case by simp
next
  case (Cons r rs)
  show ?case
    using Cons.IH[of "broadcastToRoom r (f r) ex st"] by (simp add: broadcast_written)
qed

lemma leaveRoom_written:
  "written (calls (leaveRoom r u uuid now st) c) =
     written (calls st c) @
       replicate (length (filter (receives st None c) (Set_delete (members st r) u)))
         (left_message uuid r u now)"
proof -
  define st1 where "st1 = (case rooms st r of
                   None \<Rightarrow> st
                 | Some us \<Rightarrow>
                     (let us' = Set_delete us u
                      in if length us' = 0 then st\<lparr>rooms := (rooms st)(r := None)\<rparr>
                         else st\<lparr>rooms := (rooms st)(r \<mapsto> us')\<rparr>))"
  define st2 where "st2 = (case userRooms st1 u of
                   None \<Rightarrow> st1
                 | Some rs \<Rightarrow> st1\<lparr>userRooms := (userRooms st1)(u \<mapsto> Set_delete rs r)\<rparr>)"
  have l: "leaveRoom r u uuid now st = broadcastToRoom r (left_message uuid r u now) None st2"
    unfolding leaveRoom_def st2_def st1_def Let_def by (rule refl)
  have a: "userStreams st2 = userStreams st" "calls st2 = calls st"
    by (auto simp: st1_def st2_def Let_def split: option.splits)
  then have r: "receives st2 None c = receives st None c"
    by (intro ext) (simp add: receives_def)
  have "rooms st2 = rooms st1"
    by (simp add: st2_def split: option.splits)
  then have m: "members st2 r = Set_delete (members st r) u"
    by (auto simp: members_def st1_def Let_def Set_delete_def split: option.splits)
  show ?thesis
    unfolding l broadcast_written r m a ..
qed

lemma updatePresence_written:
  "written (calls (updatePresence u stat uuids nows st) c) =
     written (calls st c) @
       concat (map (\<lambda>roomId. replicate (length (filter (receives st (Some u) c) (members st roomId)))
                      (presence_message (uuids roomId) roomId u stat (nows roomId)))
                 (case userRooms st u of None \<Rightarrow> [] | Some rs \<Rightarrow> rs))"
proof -
  let ?st1 = "st\<lparr>userPresence := (userPresence st)(u \<mapsto> stat)\<rparr>"
  have "receives ?st1 (Some u) c = receives st (Some u) c"
    by (intro ext) (simp add: receives_def)
  moreover have "members ?st1 = members st"
    by (intro ext) (simp add: members_def)
  ultimately show ?thesis
    by (simp add: updatePresence_def fold_broadcast_written)
qed

lemma on_close_written:
  assumes "userId (calls st c0) = Some u" "u \<noteq> []"
  shows "written (calls (on_close c0 uuids nows st) c) =
     written (calls st c) @
       concat (map (\<lambda>roomId. replicate
                      (length (filter (\<lambda>v. v \<noteq> u \<and> receives st None c v) (members st roomId)))
                      (left_message (uuids roomId) roomId u (nows roomId)))
                 (currentRooms (calls st c0)))"
proof -
  let ?st1 = "st\<lparr>userStreams := (userStreams st)(u := None),
                  userPresence := (userPresence st)(u \<mapsto> ''OFFLINE'')\<rparr>"
  have "receives ?st1 None c = (\<lambda>v. v \<noteq> u \<and> receives st None c v)"
    by (intro ext) (auto simp: receives_def)
  moreover have "members ?st1 = members st"
    by (intro ext) (simp add: members_def)
  ultimately show ?thesis
    using assms by (simp add: on_close_def handleUserDisconnect_def fold_broadcast_written)
qed




section \<open>Typing indicators\<close>

lemma no_typing_cong: "messageHistory st' = messageHistory st \<Longrightarrow> no_typing st \<Longrightarrow> no_typing st'"
  by (simp add: no_typing_def)

lemma no_typing_D:
  "no_typing st \<Longrightarrow> x \<in> set (case messageHistory st r of None \<Rightarrow> [] | Some h \<Rightarrow> h) \<Longrightarrow>
   msg_type x \<noteq> ''TYPING''"
  by (cases "messageHistory st r") (auto simp: no_typing_def)

lemma no_typing_push:
  assumes "no_typing st" "msg_type m \<noteq> ''TYPING''"
  shows "no_typing (broadcastToRoom r' m' ex (push_history r m st))"
  unfolding no_typing_def
proof (intro allI impI ballI)
  fix roomId h x
  assume a: "messageHistory (broadcastToRoom r' m' ex (push_history r m st)) roomId = Some h"
    and x: "x \<in> set h"
  show "msg_type x \<noteq> ''TYPING''"
  proof (cases "roomId = r")
    case True
    with a have "h = (case messageHistory st r of None \<Rightarrow> [] | Some h \<Rightarrow> h) @ [m]"
      by simp
    with x consider "x = m" | "x \<in> set (case messageHistory st r of None \<Rightarrow> [] | Some h \<Rightarrow> h)"
      by auto
    then show ?thesis
      using assms no_typing_D by cases auto
  next
    case False
    with a have "messageHistory st roomId = Some h" by simp
    with x have "x \<in> set (case messageHistory st roomId of None \<Rightarrow> [] | Some h \<Rightarrow> h)"
      by simp
    then show ?thesis using assms(1) no_typing_D by blast
  qed
qed

lemma no_typing_on_data:
  assumes "no_typing st"
  shows "no_typing (on_data c m uuid now st)"
proof (cases "bind_user c m st")
  case None
  then show ?thesis using assms by (simp add: on_data_def no_typing_def)
next
  case (Some st1)
  have n1: "no_typing st1"
    using bind_user_fields(2)[OF Some] assms by (rule no_typing_cong)
  consider (chat) "msg_type m = ''TEXT'' \<or> msg_type m = ''IMAGE'' \<or> msg_type m = ''FILE''"
    | (typing) "msg_type m = ''TYPING''"
    | (system) "msg_type m = ''SYSTEM''"
    | (other) "msg_type m \<noteq> ''TEXT''" "msg_type m \<noteq> ''IMAGE''" "msg_type m \<noteq> ''FILE''"
        "msg_type m \<noteq> ''TYPING''" "msg_type m \<noteq> ''SYSTEM''"
    by blast
  then show ?thesis
  proof cases
    case chat
    then have t: "msg_type (m\<lparr>msg_id := uuid, timestamp := now\<rparr>) \<noteq> ''TYPING''"
      by auto
    show ?thesis
    proof (cases "room_id m \<in> set (currentRooms (calls st1 c))")
      case True
      with chat Some show ?thesis
        using no_typing_push[OF n1 t]
        by (simp add: on_data_def handleChatMessage_def Let_def)
    next
      case False
      with chat Some show ?thesis
        using n1 by (simp add: on_data_def handleChatMessage_def Let_def no_typing_def)
    qed
  next
    case typing
    with Some show ?thesis
      using n1 by (simp add: on_data_def Let_def no_typing_def)
  next
    case system
    then have t: "msg_type (m\<lparr>msg_id := uuid, timestamp := now\<rparr>) \<noteq> ''TYPING''"
      by simp
    from system Some show ?thesis
      using no_typing_push[OF n1 t]
      by (simp add: on_data_def handleSystemMessage_def Let_def)
  next
    case other
    with Some show ?thesis
      using n1 by (simp add: on_data_def Let_def)
  qed
qed

lemma no_typing_getHistory:
  assumes "no_typing st"
  shows "no_typing (snd (getHistory r l b st))"
  using assms unfolding no_typing_def getHistory_def Let_def
  by (auto split: if_splits option.splits)

lemma no_typing_step: "no_typing st \<Longrightarrow> no_typing (step st e)"
proof (cases e)
  case (Data c m uuid now)
  assume "no_typing st"
  then show ?thesis using Data by (simp add: no_typing_on_data)
next
  case (GetHistory r l b)
  assume "no_typing st"
  then show ?thesis using GetHistory by (simp add: no_typing_getHistory)
qed (simp_all add: no_typing_def)

lemma no_typing_run: "no_typing (run evs)"
proof -
  have f: "no_typing st \<Longrightarrow> no_typing (foldl step st evs)" for st
    by (induction evs arbitrary: st) (simp_all add: no_typing_step)
  have "no_typing ChatService_new"
    by (simp add: no_typing_def ChatService_new_def)
  from f[OF this] show ?thesis
    unfolding run_def .
qed

lemma getHistory_messages_stored:
  "set (messages (fst (getHistory r l b st))) \<subseteq>
     set (case messageHistory st r of None \<Rightarrow> [] | Some h \<Rightarrow> h)"
proof -
  have "set (js_slice0 (js_sort_desc xs) e) \<subseteq> set xs" for xs :: "message list" and e
    using set_take_subset[of _ "js_sort_desc xs"] by (simp add: js_slice0_take)
  then show ?thesis
    by (fastforce simp: getHistory_response Let_def split: option.splits if_splits)
qed

text \<open>
  Claim C7. The handler is written to ignore a typing indicator from a user who is not in
  the room (its comment says so, and the handler of content messages next to it throws
  "User not in room" on the same test) and to fan out one from a member. The test,
  however, reads the room set of the connection, which is copied from the user's rooms
  once, when the stream is bound at its first message, and which no join or leave updates.
  So the code departs from the claim in both directions. Ana has left \<open>general\<close>: the
  registry lists only Bob and no room is recorded for her, but her connection still holds
  \<open>general\<close>, and her typing indicator is written to Bob's stream. Dana bound her stream
  before she joined: the registry lists her and \<open>general\<close> is recorded for her, but her
  connection holds no room, and her typing indicator reaches nobody; a text message from
  her is refused, is not stored, and her stream is destroyed.
\<close>

theorem typing_membership_is_stale:
  "rooms (run typing_after_leave) ''general'' = Some [''bob''] \<and>
   userRooms (run typing_after_leave) ''ana'' = Some [] \<and>
   currentRooms (calls (run typing_after_leave) 0) = [''general''] \<and>
   map content (written (calls (run typing_after_leave) 1))
     = [''hi'', ''User left the room'', ''typing...''] \<and>
   rooms (run typing_after_late_join) ''general'' = Some [''ana'', ''bob'', ''dana''] \<and>
   userRooms (run typing_after_late_join) ''dana'' = Some [''general''] \<and>
   currentRooms (calls (run typing_after_late_join) 2) = [] \<and>
   map content (written (calls (run typing_after_late_join) 0))
     = [''hello'', ''hi'', ''Dana joined the room''] \<and>
   map content (written (calls (run typing_after_late_join) 1)) = [''hi'', ''Dana joined the room''] \<and>
   destroyed (calls (run text_after_late_join) 2) \<and>
   map content (messages (fst (getHistory ''general'' None None (run text_after_late_join))))
     = [''hello'', ''hi'']"
  by code_simp

subsection \<open>The room set of a connection\<close>

lemma fold_broadcast_flags [simp]:
  "destroyed (calls (foldl (\<lambda>s roomId. broadcastToRoom roomId (f roomId) ex s) st rs) c) = destroyed (calls st c)"
  "write_throws (calls (foldl (\<lambda>s roomId. broadcastToRoom roomId (f roomId) ex s) st rs) c) = write_throws (calls st c)"
  "userId (calls (foldl (\<lambda>s roomId. broadcastToRoom roomId (f roomId) ex s) st rs) c) = userId (calls st c)"
  "currentRooms (calls (foldl (\<lambda>s roomId. broadcastToRoom roomId (f roomId) ex s) st rs) c) = currentRooms (calls st c)"
  by (induction rs arbitrary: st; simp)+

lemma bind_user_unbound:
  assumes "userId (calls st c) = None" "user_id m \<noteq> []"
  shows "bind_user c m st =
     Some (st\<lparr> userStreams := (userStreams st)(user_id m \<mapsto> c),
               calls := (calls st)(c := (calls st c)
                 \<lparr> userId := Some (user_id m),
                   currentRooms := foldl Set_add (currentRooms (calls st c))
                     (case userRooms st (user_id m) of None \<Rightarrow> [] | Some rs \<Rightarrow> rs) \<rparr>) \<rparr>)"
  using assms by (simp add: bind_user_def)

lemma bind_user_other:
  assumes "bind_user c' m st = Some st1" "c \<noteq> c'"
  shows "calls st1 c = calls st c"
  using assms by (auto simp: bind_user_def Let_def split: if_splits option.splits list.splits)

lemma handlers_keep_binding:
  "userId (calls (handleTypingIndicator m rs st) c) = userId (calls st c)"
  "currentRooms (calls (handleTypingIndicator m rs st) c) = currentRooms (calls st c)"
  "userId (calls (handleSystemMessage m rs uuid now st) c) = userId (calls st c)"
  "currentRooms (calls (handleSystemMessage m rs uuid now st) c) = currentRooms (calls st c)"
  "userId (calls (destroy c' st) c) = userId (calls st c)"
  "currentRooms (calls (destroy c' st) c) = currentRooms (calls st c)"
  by (simp_all add: handleTypingIndicator_def handleSystemMessage_def Let_def push_history_def destroy_def)

lemma handleChatMessage_keeps_binding:
  assumes "handleChatMessage m rs uuid now st = Inr st2"
  shows "userId (calls st2 c) = userId (calls st c)" "currentRooms (calls st2 c) = currentRooms (calls st c)"
  using assms by (auto simp: handleChatMessage_def Let_def push_history_def split: if_splits)

lemma dispatch_keeps_binding:
  assumes "bind_user c' m st = Some st1"
  shows "userId (calls (on_data c' m uuid now st) c) = userId (calls st1 c)"
    and "currentRooms (calls (on_data c' m uuid now st) c) = currentRooms (calls st1 c)"
  using assms
  by (auto simp: on_data_def Let_def handlers_keep_binding handleChatMessage_keeps_binding
      split: sum.splits)

lemma on_data_keeps_bound:
  assumes "userId (calls st c) = Some u" "u \<noteq> []"
  shows "userId (calls (on_data c' m uuid now st) c) = Some u \<and>
         currentRooms (calls (on_data c' m uuid now st) c) = currentRooms (calls st c)"
proof (cases "bind_user c' m st")
  case None
  then show ?thesis using assms by (simp add: on_data_def handlers_keep_binding)
next
  case (Some st1)
  have "calls st1 c = calls st c"
  proof (cases "c = c'")
    case True
    with assms Some show ?thesis by (simp add: bind_user_bound)
  next
    case False
    with bind_user_other[OF Some] show ?thesis by simp
  qed
  with dispatch_keeps_binding[OF Some] assms show ?thesis by simp
qed

lemma step_keeps_bound:
  assumes "userId (calls st c) = Some u" "u \<noteq> []" "\<forall>md. e \<noteq> ChatStream c md"
  shows "userId (calls (step st e) c) = Some u \<and>
         currentRooms (calls (step st e) c) = currentRooms (calls st c)"
proof (cases e)
  case (ChatStream c' md)
  with assms show ?thesis by (auto simp: chatStream_def)
next
  case (Data c' m uuid now)
  with on_data_keeps_bound[OF assms(1,2)] show ?thesis by simp
next
  case (Close c' uuids nows)
  with assms show ?thesis
    by (simp add: on_close_def handleUserDisconnect_def split: option.splits)
next
  case (JoinRoom r v name uuid now)
  with assms show ?thesis by (simp add: joinRoom_def Let_def)
next
  case (LeaveRoom r v uuid now)
  with assms show ?thesis by (simp add: leaveRoom_def Let_def split: option.splits)
next
  case (GetHistory r l b)
  with assms show ?thesis by (simp add: getHistory_def Let_def)
next
  case (UpdatePresence v stat uuids nows)
  with assms show ?thesis by (simp add: updatePresence_def)
next
  case (Transport c' d t)
  with assms show ?thesis by auto
qed

text \<open>
  How the code handles a typing indicator, for every state. When a stream with no user
  yet receives a message that names a user, the stream is registered for that user and
  the rooms recorded for the user at that moment are added to the room set of the
  connection. Once the connection has its user, no event other than a new
  \<open>chatStream\<close> on the same stream changes its user or its room set: not a join, not a
  leave. A typing indicator is handled with that room set: if its room is not in the set,
  the state is unchanged; otherwise the indicator is written once to the stream of every
  member of the room as registered now whose stream is registered, not destroyed and
  accepts the write, except the user named in the indicator's \<open>user_id\<close>. No history
  changes.
\<close>

theorem typing_checked_against_connection_rooms:
  "(userId (calls st c) = None \<and> user_id m \<noteq> [] \<longrightarrow>
      bind_user c m st =
        Some (st\<lparr> userStreams := (userStreams st)(user_id m \<mapsto> c),
                  calls := (calls st)(c := (calls st c)
                    \<lparr> userId := Some (user_id m),
                      currentRooms := foldl Set_add (currentRooms (calls st c))
                        (case userRooms st (user_id m) of None \<Rightarrow> [] | Some rooms_of_user \<Rightarrow> rooms_of_user) \<rparr>) \<rparr>)) \<and>
   (userId (calls st c) = Some u \<and> u \<noteq> [] \<longrightarrow> bind_user c m st = Some st) \<and>
   (userId (calls st c) = Some u \<and> u \<noteq> [] \<and> (\<forall>md. e \<noteq> ChatStream c md) \<longrightarrow>
      userId (calls (step st e) c) = Some u \<and>
      currentRooms (calls (step st e) c) = currentRooms (calls st c)) \<and>
   (msg_type m = ''TYPING'' \<and> bind_user c m st = Some st1 \<longrightarrow>
      on_data c m uuid now st = handleTypingIndicator m (currentRooms (calls st1 c)) st1) \<and>
   (room_id m \<notin> set rs \<longrightarrow> handleTypingIndicator m rs st = st) \<and>
   (room_id m \<in> set rs \<longrightarrow>
      written (calls (handleTypingIndicator m rs st) c') =
        written (calls st c') @
          replicate (length (filter (receives st (Some (user_id m)) c') (members st (room_id m)))) m) \<and>
   messageHistory (handleTypingIndicator m rs st) = messageHistory st"
proof -
  have p0: "userId (calls st c) = None \<and> user_id m \<noteq> [] \<longrightarrow>
      bind_user c m st =
        Some (st\<lparr> userStreams := (userStreams st)(user_id m \<mapsto> c),
                  calls := (calls st)(c := (calls st c)
                    \<lparr> userId := Some (user_id m),
                      currentRooms := foldl Set_add (currentRooms (calls st c))
                        (case userRooms st (user_id m) of None \<Rightarrow> [] | Some rooms_of_user \<Rightarrow> rooms_of_user) \<rparr>) \<rparr>)"
    using bind_user_unbound by blast
  have p1: "userId (calls st c) = Some u \<and> u \<noteq> [] \<longrightarrow> bind_user c m st = Some st"
    by (simp add: bind_user_bound)
  have p1': "userId (calls st c) = Some u \<and> u \<noteq> [] \<and> (\<forall>md. e \<noteq> ChatStream c md) \<longrightarrow>
      userId (calls (step st e) c) = Some u \<and>
      currentRooms (calls (step st e) c) = currentRooms (calls st c)"
    using step_keeps_bound by blast
  have p2: "msg_type m = ''TYPING'' \<and> bind_user c m st = Some st1 \<longrightarrow>
      on_data c m uuid now st = handleTypingIndicator m (currentRooms (calls st1 c)) st1"
    by (simp add: on_data_typing)
  have p3: "room_id m \<notin> set rs \<longrightarrow> handleTypingIndicator m rs st = st"
    by (simp add: handleTypingIndicator_def)
  have p4: "room_id m \<in> set rs \<longrightarrow>
      written (calls (handleTypingIndicator m rs st) c') =
        written (calls st c') @
          replicate (length (filter (receives st (Some (user_id m)) c') (members st (room_id m)))) m"
    by (simp add: handleTypingIndicator_def broadcast_written)
  have p5: "messageHistory (handleTypingIndicator m rs st) = messageHistory st"
    by simp
  show ?thesis
    by (intro conjI p0 p1 p1' p2 p3 p4 p5)
qed

text \<open>
  The part of the claim that the code keeps: in every execution no history holds a typing
  indicator, so none is in a \<open>getHistory\<close> answer.
\<close>

theorem typing_never_stored:
  "no_typing (run evs) \<and>
   (\<forall>x \<in> set (messages (fst (getHistory r l b (run evs)))). msg_type x \<noteq> ''TYPING'')"
proof -
  have p6: "no_typing (run evs)"
    by (rule no_typing_run)
  have p7: "\<forall>x \<in> set (messages (fst (getHistory r l b (run evs)))). msg_type x \<noteq> ''TYPING''"
  proof
    fix x assume "x \<in> set (messages (fst (getHistory r l b (run evs))))"
    then have "x \<in> set (case messageHistory (run evs) r of None \<Rightarrow> [] | Some h \<Rightarrow> h)"
      using getHistory_messages_stored by blast
    then show "msg_type x \<noteq> ''TYPING''"
      using p6 no_typing_D by blast
  qed
  show ?thesis
    by (intro conjI p6 p7)
qed

end
